theory Spec2Isabelle
  imports Complex_Main "HOL-Library.AList" "HOL-Library.Sublist" "HOL-Library.Log_Nat"
begin

section \<open>JavaScript values\<close>

text \<open>
  The values the client handles: JSON data, the binary file representations accepted by
  the transcription endpoint, and host objects (abort signals, streams, functions), which
  are opaque and told apart by an identifier. The numbers inside these values are only
  tested for being zero and are reals here, with NaN apart; the arithmetic of the retry
  delay is done on doubles, defined further down. An object is the list of its own
  properties in insertion order.
\<close>

datatype jsval =
    JUndefined
  | JNull
  | JBool bool
  | JNum real
  | JNaN
  | JStr string
  | JArr "jsval list"
  | JObj "(string \<times> jsval) list"
  | JBlob "string option" string string
  | JArrayBuffer string
  | JView string
  | JHost nat

type_synonym jsobj = "(string \<times> jsval) list"

text \<open>\<open>JBlob name type data\<close> is a Blob, or a File when it has a name.\<close>

fun truthy :: "jsval \<Rightarrow> bool" where
  "truthy JUndefined = False"
| "truthy JNull = False"
| "truthy (JBool b) = b"
| "truthy (JNum x) = (x \<noteq> 0)"
| "truthy JNaN = False"
| "truthy (JStr s) = (s \<noteq> [])"
| "truthy (JArr xs) = True"
| "truthy (JObj fs) = True"
| "truthy (JBlob n t d) = True"
| "truthy (JArrayBuffer d) = True"
| "truthy (JView d) = True"
| "truthy (JHost i) = True"

text \<open>\<open>x == null\<close>: the value is null or undefined.\<close>

fun nullish :: "jsval \<Rightarrow> bool" where
  "nullish JUndefined = True"
| "nullish JNull = True"
| "nullish v = False"

text \<open>
  Reading the property \<open>k\<close> of a value that is neither null nor undefined. Only the
  properties \<open>data\<close>, \<open>name\<close>, \<open>type\<close> and \<open>error\<close> are ever read through this function;
  of these a Blob has \<open>type\<close> and, when it is a File, \<open>name\<close>, and a primitive, an array, a
  buffer or a host object has none.
\<close>

fun get_prop :: "jsval \<Rightarrow> string \<Rightarrow> jsval" where
  "get_prop (JObj fs) k = (case map_of fs k of None \<Rightarrow> JUndefined | Some v \<Rightarrow> v)"
| "get_prop (JBlob n t d) k =
     (if k = ''name'' then (case n of None \<Rightarrow> JUndefined | Some s \<Rightarrow> JStr s)
      else if k = ''type'' then JStr t
      else JUndefined)"
| "get_prop v k = JUndefined"

text \<open>Optional chaining \<open>v?.k\<close>.\<close>

definition opt_chain :: "jsval \<Rightarrow> string \<Rightarrow> jsval" where
  "opt_chain v k = (if nullish v then JUndefined else get_prop v k)"

text \<open>
  Object spread \<open>{...a, ...b}\<close>: the properties of \<open>b\<close> are set one after the other on a
  copy of \<open>a\<close>; a key that is already there keeps its place and takes the new value.
\<close>

definition spread :: "jsobj \<Rightarrow> jsobj \<Rightarrow> jsobj" where
  "spread a b = foldl (\<lambda>acc (k, v). AList.update k v acc) a b"

section \<open>Thrown values and HTTP responses\<close>

text \<open>
  What the iteration of a response's headers can be: absent, an iterable of entries (each
  entry itself iterable, or not), an iterable whose iterator throws, or a plain record.
\<close>

datatype header_entry = Entry "string list" | NotIterable

datatype headers_init =
    HNullish
  | HIterable "header_entry list"
  | HIterThrows
  | HPlain jsobj

text \<open>
  The body of a response: a stream whose text can be read, a stream whose reading fails
  (the string is the message \<open>castToError(e).message\<close> of the cause), or a stream that is
  already disturbed or locked, which \<open>clone()\<close> refuses with a TypeError.
\<close>

datatype body_state = Readable string | ReadFails string | Unusable

datatype response = Response (status: int) (rsp_headers: headers_init) (rsp_body: "body_state option")

text \<open>
  The values that are thrown or passed along the error hooks. \<open>APIError s e m h\<close> is
  \<open>new APIError(s, e, m, h)\<close> and \<open>APIError_generate c\<close> is
  \<open>APIError.generate(undefined, c, undefined, undefined)\<close>.
\<close>

datatype thrown =
    TypeError string
  | PlainError string
  | HTTPError response
  | APIError int jsval "string option" jsobj
  | APIError_generate thrown

text \<open>\<open>error?.response\<close>: only the HTTP error of the fetch wrapper carries a response.\<close>

fun response_of :: "thrown \<Rightarrow> response option" where
  "response_of (HTTPError r) = Some r"
| "response_of e = None"

section \<open>The error normalizer\<close>

text \<open>One entry of \<open>Object.fromEntries\<close>, after \<open>[...header]\<close>: the first two elements.\<close>

fun entry_pair :: "string list \<Rightarrow> string \<times> jsval" where
  "entry_pair [] = (''undefined'', JUndefined)"
| "entry_pair [k] = (k, JUndefined)"
| "entry_pair (k # v # rest) = (k, JStr v)"

text \<open>The \<open>map\<close> over the entries; \<open>None\<close> when spreading an entry throws.\<close>

fun spread_entries :: "header_entry list \<Rightarrow> (string \<times> jsval) list option" where
  "spread_entries [] = Some []"
| "spread_entries (NotIterable # es) = None"
| "spread_entries (Entry xs # es) =
     (case spread_entries es of None \<Rightarrow> None | Some ps \<Rightarrow> Some (entry_pair xs # ps))"

text \<open>\<open>parseHeaders\<close>: the whole body is inside \<open>try\<close>, and the handler returns \<open>{}\<close>.\<close>

fun parseHeaders :: "headers_init \<Rightarrow> jsobj" where
  "parseHeaders HNullish = []"
| "parseHeaders (HIterable es) =
     (case spread_entries es of None \<Rightarrow> [] | Some ps \<Rightarrow> spread [] ps)"
| "parseHeaders HIterThrows = []"
| "parseHeaders (HPlain hs) = hs"

text \<open>
  \<open>safeJson\<close>. \<open>JSON.parse\<close> belongs to the platform and is a parameter: it returns the
  parsed value or throws.
\<close>

definition safeJson :: "(string \<Rightarrow> thrown + jsval) \<Rightarrow> string \<Rightarrow> jsval" where
  "safeJson JSON_parse text = (case JSON_parse text of Inl err \<Rightarrow> JUndefined | Inr v \<Rightarrow> v)"

text \<open>
  \<open>response.clone().text().catch((e) => castToError(e).message)\<close>: the handler is attached
  to the promise of \<open>text()\<close>, so it covers a failing read and not a throwing \<open>clone()\<close>.
\<close>

fun clone_text :: "body_state \<Rightarrow> thrown + string" where
  "clone_text (Readable t) = Inr t"
| "clone_text (ReadFails m) = Inr m"
| "clone_text Unusable = Inl (TypeError ''Response body is already used'')"

text \<open>
  The hook that \<open>createApiInstance\<close> pushes on \<open>hooks.beforeError\<close>. \<open>Inr\<close> is the error
  it returns, \<open>Inl\<close> an exception that escapes from it.
\<close>

definition normalizer :: "(string \<Rightarrow> thrown + jsval) \<Rightarrow> thrown \<Rightarrow> thrown + thrown" where
  "normalizer JSON_parse error =
     (case response_of error of
        Some r \<Rightarrow>
          (let st = status r;
               hdrs = parseHeaders (rsp_headers r)
           in case rsp_body r of
                None \<Rightarrow> Inr (APIError st JUndefined None hdrs)
              | Some b \<Rightarrow>
                  (case clone_text b of
                     Inl e \<Rightarrow> Inl e
                   | Inr errText \<Rightarrow>
                       (let errorResponse = opt_chain (safeJson JSON_parse errText) ''error'';
                            message = (if truthy errorResponse then None else Some errText)
                        in Inr (APIError st errorResponse message hdrs))))
      | None \<Rightarrow> Inr (APIError_generate error))"

section \<open>Double precision numbers\<close>

text \<open>
  JavaScript computes with IEEE-754 binary64 numbers. \<open>Num m e\<close> is the finite number
  \<open>m * 2\<^sup>e\<close>, for any integers \<open>m\<close> and \<open>e\<close>; \<open>NotFinite\<close> stands for the two infinities
  and NaN, which a sum, a difference or a product never leaves once an operand is one
  of them.
\<close>

datatype double = Num int int | NotFinite

fun num_val :: "double \<Rightarrow> real" where
  "num_val (Num m e) = real_of_int m * 2 powi e"
| "num_val NotFinite = 0"

text \<open>
  Rounding to the nearest double, ties to the even mantissa. Of the exact value
  \<open>m * 2\<^sup>e\<close> the bits beyond the first 53 are dropped, and so are those below
  \<open>2\<^sup>-\<^sup>1\<^sup>0\<^sup>7\<^sup>4\<close>, the step of the subnormal numbers; \<open>k\<close> is how many that is.
\<close>

definition round_pair :: "int \<Rightarrow> int \<Rightarrow> int \<times> int" where
  "round_pair m e =
     (let k = max (bitlen \<bar>m\<bar> - 53) (- 1074 - e)
      in if k \<le> 0 then (m, e)
         else
           (let q = m div 2 ^ nat k;
                r = m mod 2 ^ nat k;
                half = 2 ^ nat (k - 1)
            in ((if r < half then q else if half < r then q + 1 else if even q then q else q + 1),
                e + k)))"

text \<open>A rounded value of \<open>2\<^sup>1\<^sup>0\<^sup>2\<^sup>4\<close> or more overflows to an infinity.\<close>

definition round64 :: "int \<Rightarrow> int \<Rightarrow> double" where
  "round64 m e =
     (let (m', e') = round_pair m e
      in if m' \<noteq> 0 \<and> 1024 < bitlen \<bar>m'\<bar> + e' then NotFinite else Num m' e')"

text \<open>The operators \<open>*\<close>, \<open>+\<close>, binary and unary \<open>-\<close>: the exact result, rounded.\<close>

fun js_mul :: "double \<Rightarrow> double \<Rightarrow> double" where
  "js_mul (Num m1 e1) (Num m2 e2) = round64 (m1 * m2) (e1 + e2)"
| "js_mul x y = NotFinite"

fun js_add :: "double \<Rightarrow> double \<Rightarrow> double" where
  "js_add (Num m1 e1) (Num m2 e2) =
     (let e = min e1 e2 in round64 (m1 * 2 ^ nat (e1 - e) + m2 * 2 ^ nat (e2 - e)) e)"
| "js_add x y = NotFinite"

fun js_sub :: "double \<Rightarrow> double \<Rightarrow> double" where
  "js_sub (Num m1 e1) (Num m2 e2) =
     (let e = min e1 e2 in round64 (m1 * 2 ^ nat (e1 - e) - m2 * 2 ^ nat (e2 - e)) e)"
| "js_sub x y = NotFinite"

fun js_neg :: "double \<Rightarrow> double" where
  "js_neg (Num m e) = Num (- m) e"
| "js_neg NotFinite = NotFinite"

text \<open>The literal \<open>0.3\<close>: the double nearest to three tenths, \<open>0x3FD3333333333333\<close>.\<close>

definition double_0_3 :: double where
  "double_0_3 = Num 5404319552844595 (- 54)"

section \<open>The default retry delay\<close>

text \<open>\<open>numberBetween\<close>; the first argument is the value of \<open>Math.random()\<close>.\<close>

definition numberBetween :: "double \<Rightarrow> double \<Rightarrow> double \<Rightarrow> double" where
  "numberBetween rnd mn mx = js_add (js_mul rnd (js_sub mx mn)) mn"

text \<open>
  The \<open>delay\<close> function of the default retry policy, in milliseconds. \<open>Math.pow\<close> belongs
  to the platform, which promises an approximation and no more, and is a parameter.
\<close>

definition default_retry_delay ::
  "(double \<Rightarrow> double \<Rightarrow> double) \<Rightarrow> double \<Rightarrow> double \<Rightarrow> double" where
  "default_retry_delay Math_pow rnd attemptCount =
     (let INITIAL_DELAY = double_0_3;
          jitter = numberBetween rnd (js_neg double_0_3) double_0_3;
          sleep = js_mul INITIAL_DELAY (Math_pow (js_sub attemptCount (Num 1 0)) (Num 2 0))
      in js_mul (js_add sleep jitter) (Num 1000 0))"

section \<open>The transport adapter\<close>

subsection \<open>Objects that are shared by reference\<close>

text \<open>
  \<open>createApiInstance\<close> writes to the \<open>hooks\<close> object it is given and to the array in its
  \<open>beforeError\<close> property, and \<open>extend\<close> passes these objects on by reference, so they
  live in a store, as the header records do. Addresses are numbers; \<open>fresh\<close> is the next
  unused one.
\<close>

datatype hook = Normalizer | UserHook nat

record hooks_obj =
  beforeError :: "nat option"
  other_hooks :: jsobj

text \<open>
  The options of the fetch wrapper as \<open>createApiInstance\<close> takes them apart: \<open>headers\<close>
  and \<open>hooks\<close> are references, \<open>ko_rest\<close> holds every other option.
\<close>

record ky_options =
  ko_headers :: "nat option"
  ko_hooks :: "nat option"
  ko_prefixUrl :: "string option"
  ko_retry :: jsval
  ko_timeout :: jsval
  ko_rest :: jsobj

record api_args =
  arg_apiKey :: string
  arg_baseUrl :: "string option"
  arg_organizationId :: "string option"
  arg_kyOptions :: "ky_options option"

datatype retry_policy = DefaultRetry | UserRetry jsval

text \<open>
  The instance \<open>ky.extend({...})\<close> returns, as the options it was made from.
  \<open>DefaultRetry\<close> is the policy whose delay is \<open>default_retry_delay\<close>.
\<close>

record ky_instance =
  k_prefixUrl :: string
  k_headers :: jsobj
  k_retry :: retry_policy
  k_timeout :: jsval
  k_hooks :: nat
  k_rest :: jsobj

text \<open>The adapter: the variables its \<open>post\<close> and \<open>extend\<close> closures capture.\<close>

record adapter =
  ad_apiKey :: string
  ad_baseUrl :: "string option"
  ad_organizationId :: "string option"
  ad_kyOptions :: ky_options
  ad_kyBase :: ky_instance

text \<open>A multipart form: its entries in order, each value with the conversion it went through.\<close>

datatype form_value =
    NewBlob jsval jsval jsval
  | ExistingBlob jsval jsval
  | AsIs jsval
  | StringOf jsval
  | JsonStringOf jsval

type_synonym form = "(string \<times> form_value) list"

text \<open>
  \<open>NewBlob part type name\<close> is \<open>new Blob([part], {type})\<close> appended under the file name
  \<open>name\<close>; \<open>ExistingBlob blob name\<close> is a Blob appended under \<open>name\<close>; \<open>AsIs v\<close> is
  \<open>form.append(field, v)\<close>; \<open>StringOf v\<close> is \<open>String(v)\<close> and \<open>JsonStringOf v\<close> is
  \<open>JSON.stringify(v)\<close>.
\<close>

record post_opts =
  po_json :: jsval
  po_body :: "form option"
  po_headers :: "jsobj option"
  po_signal :: jsval
  po_onDownloadProgress :: bool

text \<open>One call of \<open>kyBase.post\<close>: the instance, the path and the options it is given.\<close>

record outbound =
  ob_ky :: ky_instance
  ob_path :: string
  ob_json :: jsval
  ob_body :: "form option"
  ob_headers :: "jsobj option"
  ob_signal :: jsval

text \<open>
  The store, with one field for each kind of object, and the calls of \<open>kyBase.post\<close>
  made so far, in order.
\<close>

record world =
  headers_at :: "nat \<Rightarrow> jsobj"
  hooks_at :: "nat \<Rightarrow> hooks_obj"
  array_at :: "nat \<Rightarrow> hook list"
  fresh :: nat
  sent :: "outbound list"

text \<open>The options of the client's constructor.\<close>

record config_opts =
  co_apiKey :: "string option"
  co_organizationId :: "string option"
  co_baseUrl :: "string option"
  co_kyOptions :: "ky_options option"

text \<open>The two variables of \<open>process.env\<close> that the constructor reads.\<close>

record process_env =
  OPENAI_API_KEY :: "string option"
  OPENAI_ORG_ID :: "string option"

text \<open>The overrides of one request: \<open>{headers?, signal?}\<close>.\<close>

record request_opts =
  ro_headers :: "jsobj option"
  ro_signal :: jsval

definition alloc_headers :: "jsobj \<Rightarrow> world \<Rightarrow> nat \<times> world" where
  "alloc_headers hs w =
     (fresh w, w\<lparr>headers_at := (headers_at w)(fresh w := hs), fresh := Suc (fresh w)\<rparr>)"

definition alloc_hooks :: "hooks_obj \<Rightarrow> world \<Rightarrow> nat \<times> world" where
  "alloc_hooks ho w =
     (fresh w, w\<lparr>hooks_at := (hooks_at w)(fresh w := ho), fresh := Suc (fresh w)\<rparr>)"

definition alloc_array :: "hook list \<Rightarrow> world \<Rightarrow> nat \<times> world" where
  "alloc_array hs w =
     (fresh w, w\<lparr>array_at := (array_at w)(fresh w := hs), fresh := Suc (fresh w)\<rparr>)"

text \<open>\<open>array.push(h)\<close> on the array at address \<open>b\<close>.\<close>

definition push_hook :: "nat \<Rightarrow> hook \<Rightarrow> world \<Rightarrow> world" where
  "push_hook b h w = w\<lparr>array_at := (array_at w)(b := array_at w b @ [h])\<rparr>"

subsection \<open>createApiInstance\<close>

definition DEFAULT_BASE_URL :: string where
  "DEFAULT_BASE_URL = ''https://api.openai.com/v1''"

definition empty_ky_options :: ky_options where
  "empty_ky_options =
     \<lparr>ko_headers = None, ko_hooks = None, ko_prefixUrl = None,
      ko_retry = JUndefined, ko_timeout = JUndefined, ko_rest = []\<rparr>"

text \<open>\<open>a || b\<close> on optional strings: an absent or empty string is falsy.\<close>

fun str_or :: "string option \<Rightarrow> string option \<Rightarrow> string option" where
  "str_or None b = b"
| "str_or (Some s) b = (if s = [] then b else Some s)"

text \<open>\<open>baseUrl || prefixUrl || DEFAULT_BASE_URL\<close>.\<close>

definition resolve_base_url :: "string option \<Rightarrow> string option \<Rightarrow> string" where
  "resolve_base_url baseUrl prefixUrl =
     (case str_or (str_or baseUrl prefixUrl) (Some DEFAULT_BASE_URL) of
        None \<Rightarrow> DEFAULT_BASE_URL
      | Some u \<Rightarrow> u)"

text \<open>The record a header reference stands for; \<open>...undefined\<close> spreads nothing.\<close>

definition headers_of :: "world \<Rightarrow> nat option \<Rightarrow> jsobj" where
  "headers_of w h = (case h of None \<Rightarrow> [] | Some a \<Rightarrow> headers_at w a)"

text \<open>The \<open>headers\<close> literal handed to \<open>ky.extend\<close>.\<close>

definition default_headers :: "string \<Rightarrow> string option \<Rightarrow> jsobj \<Rightarrow> jsobj" where
  "default_headers apiKey organizationId hdrs =
     spread
       (spread
          (spread [(''User-Agent'', JStr ''openai-fetch'')]
             (if apiKey \<noteq> [] then [(''Authorization'', JStr (''Bearer '' @ apiKey))] else []))
          (case organizationId of
             None \<Rightarrow> []
           | Some org \<Rightarrow> if org \<noteq> [] then [(''OpenAI-Organization'', JStr org)] else []))
       hdrs"

text \<open>
  The destructuring default \<open>hooks = {}\<close>, then
  \<open>if (!hooks.beforeError) hooks.beforeError = []\<close> and the \<open>push\<close> of the normalizer.
  The result is the address of the hooks object.
\<close>

definition install_normalizer :: "nat option \<Rightarrow> world \<Rightarrow> nat \<times> world" where
  "install_normalizer hooks_ref w =
     (let (hooks, w1) =
            (case hooks_ref of
               None \<Rightarrow> alloc_hooks \<lparr>beforeError = None, other_hooks = []\<rparr> w
             | Some a \<Rightarrow> (a, w));
          (arr, w2) =
            (case beforeError (hooks_at w1 hooks) of
               None \<Rightarrow>
                 (let (b, w') = alloc_array [] w1
                  in (b, w'\<lparr>hooks_at := (hooks_at w')(hooks := (hooks_at w' hooks)\<lparr>beforeError := Some b\<rparr>)\<rparr>))
             | Some b \<Rightarrow> (b, w1))
      in (hooks, push_hook arr Normalizer w2))"

definition createApiInstance :: "api_args \<Rightarrow> world \<Rightarrow> adapter \<times> world" where
  "createApiInstance args w =
     (let apiKey = arg_apiKey args;
          baseUrl = arg_baseUrl args;
          organizationId = arg_organizationId args;
          kyOptions = (case arg_kyOptions args of None \<Rightarrow> empty_ky_options | Some k \<Rightarrow> k);
          (hooks, w') = install_normalizer (ko_hooks kyOptions) w;
          kyBase =
            \<lparr>k_prefixUrl = resolve_base_url baseUrl (ko_prefixUrl kyOptions),
             k_headers = default_headers apiKey organizationId (headers_of w' (ko_headers kyOptions)),
             k_retry = (if nullish (ko_retry kyOptions) then DefaultRetry else UserRetry (ko_retry kyOptions)),
             k_timeout = (if nullish (ko_timeout kyOptions) then JNum (1000 * 60 * 10) else ko_timeout kyOptions),
             k_hooks = hooks,
             k_rest = ko_rest kyOptions\<rparr>
      in (\<lparr>ad_apiKey = apiKey, ad_baseUrl = baseUrl, ad_organizationId = organizationId,
           ad_kyOptions = kyOptions, ad_kyBase = kyBase\<rparr>, w'))"

subsection \<open>The adapter's extend and post\<close>

definition extend :: "adapter \<Rightarrow> request_opts \<Rightarrow> world \<Rightarrow> adapter \<times> world" where
  "extend a overrides w =
     (let mergedHeaders =
            spread (spread [] (headers_of w (ko_headers (ad_kyOptions a))))
                   (case ro_headers overrides of None \<Rightarrow> [] | Some h \<Rightarrow> h);
          (m, w1) = alloc_headers mergedHeaders w
      in createApiInstance
           \<lparr>arg_apiKey = ad_apiKey a,
            arg_baseUrl = Some (resolve_base_url (ad_baseUrl a) (ko_prefixUrl (ad_kyOptions a))),
            arg_organizationId = ad_organizationId a,
            arg_kyOptions = Some ((ad_kyOptions a)\<lparr>ko_headers := Some m\<rparr>)\<rparr>
           w1)"

text \<open>\<open>path.replace(/^\<bslash>//, '')\<close>: one leading slash is removed.\<close>

fun strip_slash :: "string \<Rightarrow> string" where
  "strip_slash [] = []"
| "strip_slash (c # cs) = (if c = CHR ''/'' then cs else c # cs)"

text \<open>
  \<open>post\<close>. The parameter \<open>kypost\<close> is \<open>kyBase.post\<close>, the fetch wrapper with the network
  behind it: it returns the response or throws. Every call is recorded in \<open>sent\<close>.
\<close>

definition post ::
  "(outbound \<Rightarrow> thrown + response) \<Rightarrow> adapter \<Rightarrow> string \<Rightarrow> post_opts \<Rightarrow> world
     \<Rightarrow> (thrown + response) \<times> world" where
  "post kypost a path opts w =
     (let req = \<lparr>ob_ky = ad_kyBase a, ob_path = strip_slash path, ob_json = po_json opts,
                 ob_body = po_body opts, ob_headers = po_headers opts, ob_signal = po_signal opts\<rparr>
      in (kypost req, w\<lparr>sent := sent w @ [req]\<rparr>))"

subsection \<open>The error hooks of the fetch wrapper\<close>

text \<open>The hooks an instance runs when a response fails: the array its hooks object holds.\<close>

definition beforeError_hooks :: "world \<Rightarrow> ky_instance \<Rightarrow> hook list" where
  "beforeError_hooks w k =
     (case beforeError (hooks_at w (k_hooks k)) of None \<Rightarrow> [] | Some b \<Rightarrow> array_at w b)"

text \<open>
  The fetch wrapper's loop \<open>for (const hook of hooks.beforeError) error = await hook(error)\<close>:
  each hook gets the error the one before returned, and an exception in a hook ends the
  loop. \<open>user\<close> gives the hooks of the caller. The result is what is thrown in the end and
  how many times the normalizer was run.
\<close>

fun run_beforeError ::
  "(string \<Rightarrow> thrown + jsval) \<Rightarrow> (nat \<Rightarrow> thrown \<Rightarrow> thrown + thrown) \<Rightarrow> hook list \<Rightarrow> thrown
     \<Rightarrow> thrown \<times> nat" where
  "run_beforeError JSON_parse user [] error = (error, 0)"
| "run_beforeError JSON_parse user (Normalizer # hs) error =
     (case normalizer JSON_parse error of
        Inl e \<Rightarrow> (e, 1)
      | Inr error' \<Rightarrow>
          (let (final, n) = run_beforeError JSON_parse user hs error' in (final, Suc n)))"
| "run_beforeError JSON_parse user (UserHook i # hs) error =
     (case user i error of
        Inl e \<Rightarrow> (e, 0)
      | Inr error' \<Rightarrow> run_beforeError JSON_parse user hs error')"

section \<open>The client\<close>

text \<open>The constructor; the client is its \<open>api\<close> field.\<close>

definition OpenAIClient :: "config_opts \<Rightarrow> process_env \<Rightarrow> world \<Rightarrow> thrown + adapter \<times> world" where
  "OpenAIClient opts env w =
     (let apiKey = str_or (co_apiKey opts) (OPENAI_API_KEY env);
          organizationId = str_or (co_organizationId opts) (OPENAI_ORG_ID env)
      in case str_or apiKey None of
           None \<Rightarrow>
             Inl (PlainError
               ''Missing OpenAI API key. Please provide one in the config or set the OPENAI_API_KEY environment variable.'')
         | Some key \<Rightarrow>
             Inr (createApiInstance
                    \<lparr>arg_apiKey = key, arg_baseUrl = co_baseUrl opts,
                     arg_organizationId = organizationId, arg_kyOptions = co_kyOptions opts\<rparr> w))"

definition getApi :: "adapter \<Rightarrow> request_opts option \<Rightarrow> world \<Rightarrow> adapter \<times> world" where
  "getApi api opts w = (case opts of Some ov \<Rightarrow> extend api ov w | None \<Rightarrow> (api, w))"

text \<open>
  What a method returns: the response read as JSON, as text or as bytes, or its body piped
  through the stream chunk decoder.
\<close>

datatype api_result =
    JsonOf response
  | TextOf response
  | ArrayBufferOf response
  | ChunksOf response

text \<open>The options of a call that sends \<open>json\<close> and nothing else.\<close>

definition json_opts :: "jsval \<Rightarrow> bool \<Rightarrow> post_opts" where
  "json_opts j progress =
     \<lparr>po_json = j, po_body = None, po_headers = None, po_signal = JUndefined,
      po_onDownloadProgress = progress\<rparr>"

definition createChatCompletion ::
  "(outbound \<Rightarrow> thrown + response) \<Rightarrow> adapter \<Rightarrow> jsobj \<Rightarrow> request_opts option \<Rightarrow> world
     \<Rightarrow> (thrown + api_result) \<times> world" where
  "createChatCompletion kypost api params opts w =
     (let (a, w1) = getApi api opts w;
          (r, w2) = post kypost a ''chat/completions'' (json_opts (JObj params) False) w1
      in (case r of Inl e \<Rightarrow> Inl e | Inr chatResp \<Rightarrow> Inr (JsonOf chatResp), w2))"

definition streamChatCompletion ::
  "(outbound \<Rightarrow> thrown + response) \<Rightarrow> adapter \<Rightarrow> jsobj \<Rightarrow> request_opts option \<Rightarrow> world
     \<Rightarrow> (thrown + api_result) \<times> world" where
  "streamChatCompletion kypost api params opts w =
     (let (a, w1) = getApi api opts w;
          (r, w2) = post kypost a ''chat/completions''
                      (json_opts (JObj (spread (spread [] params) [(''stream'', JBool True)])) True) w1
      in (case r of Inl e \<Rightarrow> Inl e | Inr response \<Rightarrow> Inr (ChunksOf response), w2))"

definition createCompletions ::
  "(outbound \<Rightarrow> thrown + response) \<Rightarrow> adapter \<Rightarrow> jsobj \<Rightarrow> request_opts option \<Rightarrow> world
     \<Rightarrow> (thrown + api_result) \<times> world" where
  "createCompletions kypost api params opts w =
     (let (a, w1) = getApi api opts w;
          (r, w2) = post kypost a ''completions'' (json_opts (JObj params) False) w1
      in (case r of Inl e \<Rightarrow> Inl e | Inr compResp \<Rightarrow> Inr (JsonOf compResp), w2))"

definition streamCompletion ::
  "(outbound \<Rightarrow> thrown + response) \<Rightarrow> adapter \<Rightarrow> jsobj \<Rightarrow> request_opts option \<Rightarrow> world
     \<Rightarrow> (thrown + api_result) \<times> world" where
  "streamCompletion kypost api params opts w =
     (let (a, w1) = getApi api opts w;
          (r, w2) = post kypost a ''completions''
                      (json_opts (JObj (spread (spread [] params) [(''stream'', JBool True)])) True) w1
      in (case r of Inl e \<Rightarrow> Inl e | Inr response \<Rightarrow> Inr (ChunksOf response), w2))"

definition createEmbeddings ::
  "(outbound \<Rightarrow> thrown + response) \<Rightarrow> adapter \<Rightarrow> jsobj \<Rightarrow> request_opts option \<Rightarrow> world
     \<Rightarrow> (thrown + api_result) \<times> world" where
  "createEmbeddings kypost api params opts w =
     (let (a, w1) = getApi api opts w;
          (r, w2) = post kypost a ''embeddings'' (json_opts (JObj params) False) w1
      in (case r of Inl e \<Rightarrow> Inl e | Inr embResp \<Rightarrow> Inr (JsonOf embResp), w2))"

definition createModeration ::
  "(outbound \<Rightarrow> thrown + response) \<Rightarrow> adapter \<Rightarrow> jsobj \<Rightarrow> request_opts option \<Rightarrow> world
     \<Rightarrow> (thrown + api_result) \<times> world" where
  "createModeration kypost api params opts w =
     (let (a, w1) = getApi api opts w;
          (r, w2) = post kypost a ''moderations'' (json_opts (JObj params) False) w1
      in (case r of Inl e \<Rightarrow> Inl e | Inr modResp \<Rightarrow> Inr (JsonOf modResp), w2))"

definition createSpeech ::
  "(outbound \<Rightarrow> thrown + response) \<Rightarrow> adapter \<Rightarrow> jsobj \<Rightarrow> request_opts option \<Rightarrow> world
     \<Rightarrow> (thrown + api_result) \<times> world" where
  "createSpeech kypost api params opts w =
     (let (a, w1) = getApi api opts w;
          (r, w2) = post kypost a ''audio/speech'' (json_opts (JObj params) False) w1
      in (case r of Inl e \<Rightarrow> Inl e | Inr speechResp \<Rightarrow> Inr (ArrayBufferOf speechResp), w2))"

subsection \<open>createTranscription\<close>

fun instanceof_Blob :: "jsval \<Rightarrow> bool" where
  "instanceof_Blob (JBlob n t d) = True"
| "instanceof_Blob v = False"

text \<open>\<open>file instanceof ArrayBuffer || ArrayBuffer.isView(file)\<close>.\<close>

fun is_buffer :: "jsval \<Rightarrow> bool" where
  "is_buffer (JArrayBuffer d) = True"
| "is_buffer (JView d) = True"
| "is_buffer v = False"

text \<open>\<open>a || b\<close> on values.\<close>

definition js_or :: "jsval \<Rightarrow> jsval \<Rightarrow> jsval" where
  "js_or a b = (if truthy a then a else b)"

text \<open>The four branches that append the \<open>file\<close> field, in the order of the source.\<close>

definition file_entry :: "jsval \<Rightarrow> string \<times> form_value" where
  "file_entry file =
     (if truthy file \<and> \<not> instanceof_Blob file \<and> truthy (get_prop file ''data'') then
        (''file'', NewBlob (get_prop file ''data'')
                     (js_or (get_prop file ''type'') (JStr ''application/octet-stream''))
                     (js_or (get_prop file ''name'') (JStr ''audio'')))
      else if instanceof_Blob file then
        (''file'', ExistingBlob file (js_or (get_prop file ''name'') (JStr ''audio'')))
      else if is_buffer file then
        (''file'', NewBlob file (JStr ''application/octet-stream'') (JStr ''audio''))
      else
        (''file'', AsIs file))"

text \<open>
  What \<open>for (const x of v)\<close> goes through: the elements of an array, the characters of a
  string, the bytes of a view; any other value is not iterable and the loop throws.
\<close>

fun iterate :: "jsval \<Rightarrow> jsval list option" where
  "iterate (JArr xs) = Some xs"
| "iterate (JStr s) = Some (map (\<lambda>c. JStr [c]) s)"
| "iterate (JView d) = Some (map (\<lambda>c. JNum (real (of_char c))) d)"
| "iterate v = None"

text \<open>\<open>if (v) for (const x of v) form.append(field, x)\<close>.\<close>

definition append_each :: "string \<Rightarrow> jsval \<Rightarrow> form \<Rightarrow> thrown + form" where
  "append_each field v form =
     (if truthy v then
        (case iterate v of
           None \<Rightarrow> Inl (TypeError ''value is not iterable'')
         | Some xs \<Rightarrow> Inr (form @ map (\<lambda>x. (field, AsIs x)) xs))
      else Inr form)"

text \<open>The fields that follow \<open>file\<close>, up to the first \<open>for\<close> statement.\<close>

definition scalar_fields :: "jsobj \<Rightarrow> form" where
  "scalar_fields params =
     [(''model'', AsIs (get_prop (JObj params) ''model''))]
     @ (if truthy (get_prop (JObj params) ''language'')
        then [(''language'', AsIs (get_prop (JObj params) ''language''))] else [])
     @ (if truthy (get_prop (JObj params) ''prompt'')
        then [(''prompt'', AsIs (get_prop (JObj params) ''prompt''))] else [])
     @ (if truthy (get_prop (JObj params) ''response_format'')
        then [(''response_format'', AsIs (get_prop (JObj params) ''response_format''))] else [])
     @ (if \<not> nullish (get_prop (JObj params) ''temperature'')
        then [(''temperature'', StringOf (get_prop (JObj params) ''temperature''))] else [])"

text \<open>The fields that follow the two \<open>for\<close> statements.\<close>

definition trailing_fields :: "jsobj \<Rightarrow> form" where
  "trailing_fields params =
     (if \<not> nullish (get_prop (JObj params) ''stream'')
      then [(''stream'', StringOf (get_prop (JObj params) ''stream''))] else [])
     @ (if \<not> nullish (get_prop (JObj params) ''chunking_strategy'')
        then (let cs = get_prop (JObj params) ''chunking_strategy''
              in [(''chunking_strategy'', (case cs of JStr s \<Rightarrow> AsIs cs | _ \<Rightarrow> JsonStringOf cs))])
        else [])"

text \<open>The form of a transcription request whose \<open>file\<close> is \<open>file\<close>.\<close>

definition build_form :: "jsobj \<Rightarrow> jsval \<Rightarrow> thrown + form" where
  "build_form params file =
     (case append_each ''timestamp_granularities[]''
             (get_prop (JObj params) ''timestamp_granularities'')
             (file_entry file # scalar_fields params) of
        Inl e \<Rightarrow> Inl e
      | Inr form1 \<Rightarrow>
          (case append_each ''include[]'' (get_prop (JObj params) ''include'') form1 of
             Inl e \<Rightarrow> Inl e
           | Inr form2 \<Rightarrow> Inr (form2 @ trailing_fields params)))"

definition createTranscription ::
  "(outbound \<Rightarrow> thrown + response) \<Rightarrow> adapter \<Rightarrow> jsobj \<Rightarrow> request_opts option \<Rightarrow> world
     \<Rightarrow> (thrown + api_result) \<times> world" where
  "createTranscription kypost api params opts w =
     (let file = get_prop (JObj params) ''file''
      in if \<not> truthy file then (Inl (PlainError ''Transcription requires a file''), w)
         else
           (case build_form params file of
              Inl e \<Rightarrow> (Inl e, w)
            | Inr form \<Rightarrow>
                (let (a, w1) = getApi api opts w;
                     (r, w2) = post kypost a ''audio/transcriptions''
                                 \<lparr>po_json = JUndefined, po_body = Some form, po_headers = Some [],
                                  po_signal = JUndefined, po_onDownloadProgress = False\<rparr> w1;
                     rf = get_prop (JObj params) ''response_format''
                 in (case r of
                       Inl e \<Rightarrow> Inl e
                     | Inr resp \<Rightarrow>
                         if rf = JStr ''text'' \<or> rf = JStr ''srt'' \<or> rf = JStr ''vtt''
                         then Inr (TextOf resp) else Inr (JsonOf resp), w2))))"

section \<open>The stream chunk decoder\<close>

text \<open>
  Modelled from the spec: \<open>StreamCompletionChunker\<close>, which \<open>streamChatCompletion\<close> and
  \<open>streamCompletion\<close> import from \<open>streaming.js\<close>; that file is not among the sources. The
  decoder buffers the bytes it receives, splits the buffer only on the frame delimiter (an
  empty line), holds an incomplete remainder until the next chunk, ignores the lines of a
  frame that carry no data, ends the sequence at the payload \<open>[DONE]\<close> or when the stream
  closes, takes a payload that is not JSON as a fatal decode error, and applies the caller's
  mapping function to every parsed value.
\<close>

definition NL :: char where
  "NL = CHR 0x0A"

text \<open>The complete frames of a buffer, in order, and the incomplete remainder.\<close>

fun split_frames :: "string \<Rightarrow> string list \<times> string" where
  "split_frames [] = ([], [])"
| "split_frames [c] = ([], [c])"
| "split_frames (c # d # rest) =
     (if c = NL \<and> d = NL then
        (let (fs, r) = split_frames rest in ([] # fs, r))
      else
        (let (fs, r) = split_frames (d # rest)
         in case fs of [] \<Rightarrow> ([], c # r) | g # gs \<Rightarrow> ((c # g) # gs, r)))"

fun split_lines :: "string \<Rightarrow> string list" where
  "split_lines [] = [[]]"
| "split_lines (c # cs) =
     (if c = NL then [] # split_lines cs
      else (case split_lines cs of [] \<Rightarrow> [[c]] | l # ls \<Rightarrow> (c # l) # ls))"

definition strip_prefix :: "string \<Rightarrow> string \<Rightarrow> string option" where
  "strip_prefix p s = (if take (length p) s = p then Some (drop (length p) s) else None)"

text \<open>The payload of a frame: what follows \<open>data: \<close> on its first data line.\<close>

definition frame_payload :: "string \<Rightarrow> string option" where
  "frame_payload frame =
     (case List.map_filter (strip_prefix ''data: '') (split_lines frame) of
        [] \<Rightarrow> None
      | p # ps \<Rightarrow> Some p)"

text \<open>
  The decoder is open, or it has ended the sequence at the sentinel, or it has failed on
  the payload it could not parse.
\<close>

datatype phase = Open | Done | Failed string

datatype 'a decoder = Decoder (buffer: string) (yielded: "'a list") (phase: phase)

definition decoder_init :: "'a decoder" where
  "decoder_init = Decoder [] [] Open"

definition process_frame ::
  "(string \<Rightarrow> thrown + jsval) \<Rightarrow> (jsval \<Rightarrow> 'a) \<Rightarrow> 'a decoder \<Rightarrow> string \<Rightarrow> 'a decoder" where
  "process_frame JSON_parse f d frame =
     (if phase d \<noteq> Open then d
      else
        (case frame_payload frame of
           None \<Rightarrow> d
         | Some p \<Rightarrow>
             if p = ''[DONE]'' then Decoder (buffer d) (yielded d) Done
             else
               (case JSON_parse p of
                  Inl e \<Rightarrow> Decoder (buffer d) (yielded d) (Failed p)
                | Inr v \<Rightarrow> Decoder (buffer d) (yielded d @ [f v]) (phase d))))"

text \<open>One chunk of bytes arrives.\<close>

definition feed ::
  "(string \<Rightarrow> thrown + jsval) \<Rightarrow> (jsval \<Rightarrow> 'a) \<Rightarrow> 'a decoder \<Rightarrow> string \<Rightarrow> 'a decoder" where
  "feed JSON_parse f d chunk =
     (if phase d \<noteq> Open then d
      else
        (let (frames, rest) = split_frames (buffer d @ chunk)
         in foldl (process_frame JSON_parse f) (Decoder rest (yielded d) (phase d)) frames))"

text \<open>
  The whole stream: the chunks in order, then the stream closes. The result is the
  sequence of values yielded and how it ended: \<open>Done\<close> at the sentinel, \<open>Open\<close> when the
  stream closed first, \<open>Failed\<close> on a decode error.
\<close>

definition decode_stream ::
  "(string \<Rightarrow> thrown + jsval) \<Rightarrow> (jsval \<Rightarrow> 'a) \<Rightarrow> string list \<Rightarrow> 'a list \<times> phase" where
  "decode_stream JSON_parse f chunks =
     (let d = foldl (feed JSON_parse f) decoder_init chunks in (yielded d, phase d))"

text \<open>The bytes of the stream \<open>data: {"id":1}\<close>, \<open>data: {"id":2}\<close>, \<open>data: [DONE]\<close>.\<close>

definition payload_1 :: string where
  "payload_1 = [CHR ''{'', CHR 0x22] @ ''id'' @ [CHR 0x22] @ '':1}''"

definition payload_2 :: string where
  "payload_2 = [CHR ''{'', CHR 0x22] @ ''id'' @ [CHR 0x22] @ '':2}''"

definition two_frames :: string where
  "two_frames = ''data: '' @ payload_1 @ [NL, NL] @ ''data: '' @ payload_2 @ [NL, NL]"

definition sample_stream :: string where
  "sample_stream = two_frames @ ''data: [DONE]'' @ [NL, NL]"



text \<open>What a consumer of the decoder sees: the values and how the sequence ended.\<close>

definition outcome :: "'a decoder \<Rightarrow> 'a list \<times> phase" where
  "outcome d = (yielded d, phase d)"

definition set_buffer :: "string \<Rightarrow> 'a decoder \<Rightarrow> 'a decoder" where
  "set_buffer b d = Decoder b (yielded d) (phase d)"

section \<open>Sample inputs\<close>

text \<open>A store with no objects, and one that holds a caller's hooks object \<open>{}\<close> at address 0.\<close>

definition empty_world :: world where
  "empty_world =
     \<lparr>headers_at = (\<lambda>a. []), hooks_at = (\<lambda>a. \<lparr>beforeError = None, other_hooks = []\<rparr>),
      array_at = (\<lambda>a. []), fresh = 0, sent = []\<rparr>"

definition hooks_world :: world where
  "hooks_world = empty_world\<lparr>fresh := 1\<rparr>"

definition sample_args :: api_args where
  "sample_args =
     \<lparr>arg_apiKey = ''sk-test'', arg_baseUrl = None, arg_organizationId = None,
      arg_kyOptions = None\<rparr>"

text \<open>The arguments of a client whose options carry the hooks object at address 0.\<close>

definition hooks_args :: api_args where
  "hooks_args =
     \<lparr>arg_apiKey = ''sk-test'', arg_baseUrl = None, arg_organizationId = None,
      arg_kyOptions = Some (empty_ky_options\<lparr>ko_hooks := Some 0\<rparr>)\<rparr>"

definition sample_api :: adapter where
  "sample_api = fst (createApiInstance sample_args empty_world)"

definition sample_world :: world where
  "sample_world = snd (createApiInstance sample_args empty_world)"

definition sample_response :: response where
  "sample_response = Response 200 HNullish (Some (Readable ''{}''))"

definition respond_ok :: "outbound \<Rightarrow> thrown + response" where
  "respond_ok req = Inr sample_response"

text \<open>A \<open>Math.pow\<close> for the exponent 2: the square, rounded as a product is.\<close>

definition square_pow :: "double \<Rightarrow> double \<Rightarrow> double" where
  "square_pow x y = js_mul x x"

text \<open>A parser that knows the two payloads of the sample stream.\<close>

definition sample_JSON_parse :: "string \<Rightarrow> thrown + jsval" where
  "sample_JSON_parse s =
     (if s = payload_1 then Inr (JObj [(''id'', JNum 1)])
      else if s = payload_2 then Inr (JObj [(''id'', JNum 2)])
      else Inl (PlainError ''SyntaxError''))"

text \<open>The text \<open>{"error":{}}\<close> of an error body, and a parser that knows it.\<close>

definition error_body :: string where
  "error_body = [CHR ''{'', CHR 0x22] @ ''error'' @ [CHR 0x22] @ '':{}}''"

definition error_JSON_parse :: "string \<Rightarrow> thrown + jsval" where
  "error_JSON_parse s =
     (if s = error_body then Inr (JObj [(''error'', JObj [])])
      else Inl (PlainError ''SyntaxError''))"

section \<open>Object spread\<close>

text \<open>
  Read as a map, a spread is the first object overridden by the second; within the second
  object a later entry of a key overrides an earlier one.
\<close>

lemma map_of_spread_rev: "map_of (spread a b) = map_of a ++ map_of (rev b)"
  unfolding spread_def
  by (induction b arbitrary: a) (auto simp: update_conv' map_add_def fun_eq_iff split: option.splits)

lemma map_of_rev_distinct:
  assumes "distinct (map fst b)"
  shows "map_of (rev b) = map_of b"
proof -
  have "distinct (map fst (rev b))" using assms by (simp only: rev_map [symmetric] distinct_rev)
  then show ?thesis using assms by (simp add: map_of_inject_set)
qed

lemma map_of_spread: "distinct (map fst b) \<Longrightarrow> map_of (spread a b) = map_of a ++ map_of b"
  by (simp add: map_of_spread_rev map_of_rev_distinct)

section \<open>Properties of the error normalizer\<close>

text \<open>
  A \<open>Headers\<close> object iterates as pairs of a name and a value, each name once; the record
  \<open>parseHeaders\<close> makes of it maps every name to its value.
\<close>

lemma spread_entries_pairs:
  "spread_entries (map (\<lambda>(k, v). Entry [k, v]) kvs) = Some (map (\<lambda>(k, v). (k, JStr v)) kvs)"
  by (induction kvs) auto

lemma parseHeaders_entries:
  assumes "distinct (map fst kvs)"
  shows "map_of (parseHeaders (HIterable (map (\<lambda>(k, v). Entry [k, v]) kvs))) =
           map_of (map (\<lambda>(k, v). (k, JStr v)) kvs)"
proof -
  have "distinct (map fst (map (\<lambda>(k, v). (k, JStr v)) kvs))"
    using assms by (simp add: comp_def case_prod_beta)
  then show ?thesis by (simp add: spread_entries_pairs map_of_spread)
qed

text \<open>
  C5. A failed response has a body whose text can be read. If the text parses to an object
  whose \<open>error\<close> field is an object, the normalized error holds that object as its parsed
  error and has no message. If the text does not parse, or parses to a value without an
  \<open>error\<close> field, the normalized error has no parsed error and its message is the text of
  the body. In both cases it carries the status of the response and the record made of
  its headers.
\<close>

theorem normalizer_body_cases:
  assumes "rsp_body r = Some (Readable t)"
  shows "(JSON_parse t = Inr (JObj fs) \<and> map_of fs ''error'' = Some (JObj e) \<longrightarrow>
            normalizer JSON_parse (HTTPError r) =
              Inr (APIError (status r) (JObj e) None (parseHeaders (rsp_headers r)))) \<and>
         ((\<exists>x. JSON_parse t = Inl x) \<or>
          (\<exists>v. JSON_parse t = Inr v \<and> (\<forall>gs. v = JObj gs \<longrightarrow> map_of gs ''error'' = None)) \<longrightarrow>
            normalizer JSON_parse (HTTPError r) =
              Inr (APIError (status r) JUndefined (Some t) (parseHeaders (rsp_headers r))))"
proof (intro conjI impI)
  assume "JSON_parse t = Inr (JObj fs) \<and> map_of fs ''error'' = Some (JObj e)"
  with assms show "normalizer JSON_parse (HTTPError r) =
      Inr (APIError (status r) (JObj e) None (parseHeaders (rsp_headers r)))"
    by (simp add: normalizer_def safeJson_def opt_chain_def)
next
  assume "(\<exists>x. JSON_parse t = Inl x) \<or>
          (\<exists>v. JSON_parse t = Inr v \<and> (\<forall>gs. v = JObj gs \<longrightarrow> map_of gs ''error'' = None))"
  then have "opt_chain (safeJson JSON_parse t) ''error'' = JUndefined"
  proof
    assume "\<exists>x. JSON_parse t = Inl x"
    then show ?thesis by (auto simp: safeJson_def opt_chain_def)
  next
    assume "\<exists>v. JSON_parse t = Inr v \<and> (\<forall>gs. v = JObj gs \<longrightarrow> map_of gs ''error'' = None)"
    then obtain v where v: "JSON_parse t = Inr v" "\<forall>gs. v = JObj gs \<longrightarrow> map_of gs ''error'' = None"
      by blast
    then show ?thesis by (cases v) (simp_all add: safeJson_def opt_chain_def)
  qed
  with assms show "normalizer JSON_parse (HTTPError r) =
      Inr (APIError (status r) JUndefined (Some t) (parseHeaders (rsp_headers r)))"
    by (simp add: normalizer_def)
qed

theorem normalizer_body_cases_witness:
  "rsp_body (Response 401 (HIterable [Entry [''content-type'', ''application/json'']]) (Some (Readable error_body)))
     = Some (Readable error_body) \<and>
   error_JSON_parse error_body = Inr (JObj [(''error'', JObj [])]) \<and>
   map_of [(''error'', JObj [])] ''error'' = Some (JObj []) \<and>
   normalizer error_JSON_parse
     (HTTPError (Response 401 (HIterable [Entry [''content-type'', ''application/json'']]) (Some (Readable error_body))))
     = Inr (APIError 401 (JObj []) None [(''content-type'', JStr ''application/json'')]) \<and>
   rsp_body (Response 502 HNullish (Some (Readable ''Bad Gateway''))) = Some (Readable ''Bad Gateway'') \<and>
   error_JSON_parse ''Bad Gateway'' = Inl (PlainError ''SyntaxError'') \<and>
   normalizer error_JSON_parse (HTTPError (Response 502 HNullish (Some (Readable ''Bad Gateway''))))
     = Inr (APIError 502 JUndefined (Some ''Bad Gateway'') [])"
proof -
  have p1: "error_JSON_parse error_body = Inr (JObj [(''error'', JObj [])])"
    by (simp add: error_JSON_parse_def error_body_def)
  have p2: "error_JSON_parse ''Bad Gateway'' = Inl (PlainError ''SyntaxError'')"
    by (simp add: error_JSON_parse_def error_body_def)
  have h: "parseHeaders (HIterable [Entry [''content-type'', ''application/json'']])
             = [(''content-type'', JStr ''application/json'')]"
    by (simp add: spread_def)
  from normalizer_body_cases
         [of "Response 401 (HIterable [Entry [''content-type'', ''application/json'']]) (Some (Readable error_body))"
             error_body error_JSON_parse "[(''error'', JObj [])]" "[]"]
       normalizer_body_cases
         [of "Response 502 HNullish (Some (Readable ''Bad Gateway''))" "''Bad Gateway''" error_JSON_parse]
       p1 p2 h
  show ?thesis by simp
qed

text \<open>
  The three failures the normalizer absorbs: a text that does not parse gives an undefined
  parsed body, headers that cannot be iterated give an empty record, and a body whose
  reading fails gives the message of the cause. With a body that \<open>clone()\<close> accepts, or
  with no response at all, the normalizer returns an error and throws nothing.
\<close>

lemma normalizer_returns:
  assumes "\<forall>r. response_of error = Some r \<longrightarrow> rsp_body r \<noteq> Some Unusable"
  shows "\<exists>e. normalizer JSON_parse error = Inr e"
proof (cases "response_of error")
  case None
  then show ?thesis by (simp add: normalizer_def)
next
  case (Some r)
  with assms have "rsp_body r \<noteq> Some Unusable" by simp
  then show ?thesis using Some
    by (cases "rsp_body r"; cases "the (rsp_body r)") (auto simp: normalizer_def Let_def)
qed

lemma safeJson_parse_failure: "JSON_parse t = Inl x \<Longrightarrow> safeJson JSON_parse t = JUndefined"
  by (simp add: safeJson_def)

lemma parseHeaders_iteration_failure:
  "parseHeaders HIterThrows = []" "NotIterable \<in> set es \<Longrightarrow> parseHeaders (HIterable es) = []"
proof -
  show "parseHeaders HIterThrows = []" by simp
  have "NotIterable \<in> set es \<Longrightarrow> spread_entries es = None"
    by (induction es rule: spread_entries.induct) auto
  then show "NotIterable \<in> set es \<Longrightarrow> parseHeaders (HIterable es) = []" by simp
qed

lemma body_read_failure:
  assumes "rsp_body r = Some (ReadFails m)" and "JSON_parse m = Inl x"
  shows "normalizer JSON_parse (HTTPError r) =
           Inr (APIError (status r) JUndefined (Some m) (parseHeaders (rsp_headers r)))"
  using assms by (simp add: normalizer_def safeJson_def opt_chain_def)

text \<open>
  C6. The normalizer is given the HTTP error of a response whose body stream is already
  disturbed, as it is after a hook of the caller that ran before has read it.
  \<open>response.body\<close> is still there, \<open>response.clone()\<close> throws a TypeError, and the
  \<open>catch\<close> handler, which is attached to the promise of \<open>text()\<close>, does not see it: the
  exception leaves the normalizer.
\<close>

theorem normalizer_throws_on_used_body:
  "normalizer JSON_parse (HTTPError (Response 500 HNullish (Some Unusable))) =
     Inl (TypeError ''Response body is already used'')"
  by (simp add: normalizer_def)

section \<open>Properties of double arithmetic\<close>

text \<open>
  Rounding moves a value by at most half a unit in the last place: by the fraction
  \<open>2\<^sup>-\<^sup>5\<^sup>3\<close> of the value, or by \<open>2\<^sup>-\<^sup>1\<^sup>0\<^sup>7\<^sup>5\<close> among the subnormal numbers. A value
  below \<open>2\<^sup>1\<^sup>0\<^sup>0\<^sup>0\<close> does not overflow.
\<close>

lemma round_int_error:
  fixes m :: int and k :: nat
  assumes "0 < k"
  shows "\<bar>(let q = m div 2 ^ k; r = m mod 2 ^ k; half = 2 ^ (k - 1)
           in if r < half then q else if half < r then q + 1 else if even q then q else q + 1) * 2 ^ k - m\<bar>
         \<le> 2 ^ (k - 1)"
proof -
  define q where "q = m div 2 ^ k"
  define r where "r = m mod 2 ^ k"
  define half :: int where "half = 2 ^ (k - 1)"
  have p: "(2::int) ^ k = 2 * half"
    using assms by (cases k) (simp_all add: half_def)
  have m: "m = q * (2 * half) + r"
    unfolding q_def r_def p [symmetric] by (rule div_mult_mod_eq [symmetric])
  have r0: "0 \<le> r" unfolding r_def by simp
  have r1: "r < 2 * half" unfolding r_def p [symmetric] by simp
  have "\<bar>(if r < half then q else if half < r then q + 1 else if even q then q else q + 1) * (2 * half) - m\<bar> \<le> half"
    using m r0 r1 by (auto simp: algebra_simps)
  then show ?thesis
    unfolding Let_def half_def [symmetric] q_def r_def p .
qed

lemma round_pair_error:
  assumes "round_pair m e = (m', e')"
  shows "\<bar>real_of_int m' * 2 powi e' - real_of_int m * 2 powi e\<bar>
           \<le> \<bar>real_of_int m * 2 powi e\<bar> / 2 ^ 53 + 2 powi (- 1075)"
proof -
  define k where "k = max (bitlen \<bar>m\<bar> - 53) (- 1074 - e)"
  show ?thesis
  proof (cases "k \<le> 0")
    case True
    then have "m' = m" "e' = e" using assms by (simp_all add: round_pair_def k_def [symmetric])
    then show ?thesis by simp
  next
    case False
    then have kpos: "0 < nat k" by simp
    have e': "e' = e + k" using assms False by (simp add: round_pair_def k_def [symmetric] Let_def)
    have m': "m' = (let q = m div 2 ^ nat k; r = m mod 2 ^ nat k; half = 2 ^ (nat k - 1)
           in if r < half then q else if half < r then q + 1 else if even q then q else q + 1)"
      using assms False by (simp add: round_pair_def k_def [symmetric] Let_def nat_diff_distrib)
    have i: "\<bar>m' * 2 ^ nat k - m\<bar> \<le> 2 ^ (nat k - 1)"
      unfolding m' by (rule round_int_error [OF kpos])
    have pk: "(2::real) powi (e + k) = 2 powi e * 2 ^ nat k"
      using False by (simp add: power_int_add power_int_nonneg_exp)
    have "real_of_int m' * 2 powi e' - real_of_int m * 2 powi e
            = 2 powi e * real_of_int (m' * 2 ^ nat k - m)"
      by (simp add: e' pk algebra_simps)
    then have "\<bar>real_of_int m' * 2 powi e' - real_of_int m * 2 powi e\<bar>
            = 2 powi e * real_of_int \<bar>m' * 2 ^ nat k - m\<bar>"
      by (simp add: abs_mult)
    also have "\<dots> \<le> 2 powi e * real_of_int (2 ^ (nat k - 1))"
      using i by (intro mult_left_mono) (simp_all only: of_int_le_iff zero_le_power_int zero_le_numeral)
    also have "\<dots> = 2 powi (e + (k - 1))"
      using False by (simp add: power_int_add power_int_nonneg_exp nat_diff_distrib)
    finally have b: "\<bar>real_of_int m' * 2 powi e' - real_of_int m * 2 powi e\<bar> \<le> 2 powi (e + (k - 1))" .
    show ?thesis
    proof (cases "k = - 1074 - e")
      case True
      then have "e + (k - 1) = - 1075" by simp
      with b have "\<bar>real_of_int m' * 2 powi e' - real_of_int m * 2 powi e\<bar> \<le> 2 powi (- 1075)" by simp
      moreover have "0 \<le> \<bar>real_of_int m * 2 powi e\<bar> / 2 ^ 53" by simp
      ultimately show ?thesis by linarith
    next
      case False
      then have kb: "k = bitlen \<bar>m\<bar> - 53" by (simp add: k_def max_def split: if_splits)
      with \<open>\<not> k \<le> 0\<close> have bl: "53 < bitlen \<bar>m\<bar>" by simp
      then have "0 < \<bar>m\<bar>" by (metis bitlen_eq_zero_iff not_less less_le_trans zero_less_numeral less_imp_le order.asym abs_ge_zero le_less)
      then have "2 ^ nat (bitlen \<bar>m\<bar> - 1) \<le> \<bar>m\<bar>" using bitlen_bounds by blast
      then have "real_of_int (2 ^ nat (bitlen \<bar>m\<bar> - 1)) \<le> real_of_int \<bar>m\<bar>" by (simp only: of_int_le_iff)
      then have "2 powi (bitlen \<bar>m\<bar> - 1) \<le> \<bar>real_of_int m\<bar>"
        using bl by (simp add: power_int_nonneg_exp)
      then have "2 powi (bitlen \<bar>m\<bar> - 1) * 2 powi e / 2 ^ 53 \<le> \<bar>real_of_int m\<bar> * 2 powi e / 2 ^ 53"
        by (intro divide_right_mono mult_right_mono) simp_all
      moreover have "(2::real) powi (bitlen \<bar>m\<bar> - 1) * 2 powi e / 2 ^ 53 = 2 powi (e + (k - 1))"
      proof -
        define a where "a = bitlen \<bar>m\<bar> - 1"
        have ek: "e + (k - 1) = (a + e) + (- 53)" by (simp add: kb a_def)
        have "(2::real) powi ((a + e) + (- 53)) = 2 powi (a + e) * 2 powi (- 53)"
          by (rule power_int_add) simp
        also have "(2::real) powi (a + e) = 2 powi a * 2 powi e"
          by (rule power_int_add) simp
        also have "(2::real) powi (- 53) = 1 / 2 ^ 53"
          by (simp only: power_int_minus_divide power_int_numeral)
        finally have "(2::real) powi ((a + e) + (- 53)) = 2 powi a * 2 powi e * (1 / 2 ^ 53)" .
        then show ?thesis unfolding ek a_def [symmetric] by simp
      qed
      ultimately have "2 powi (e + (k - 1)) \<le> \<bar>real_of_int m\<bar> * 2 powi e / 2 ^ 53"
        by (simp only:)
      moreover have "\<bar>real_of_int m * 2 powi e\<bar> = \<bar>real_of_int m\<bar> * 2 powi e"
        by (simp add: abs_mult)
      ultimately have "2 powi (e + (k - 1)) \<le> \<bar>real_of_int m * 2 powi e\<bar> / 2 ^ 53"
        by (simp only:)
      moreover have "(0::real) \<le> 2 powi (- 1075)" by simp
      ultimately show ?thesis using b by linarith
    qed
  qed
qed

lemma tiny_le: "(2::real) powi (- 1075) \<le> 1 / 2 ^ 53"
proof -
  have "(2::real) powi (- 1075) \<le> 2 powi (- 53)" by (rule power_int_increasing) simp_all
  then show ?thesis by (simp add: power_int_minus field_simps)
qed

lemma round64_approx:
  assumes "\<bar>real_of_int m * 2 powi e\<bar> < 2 ^ 1000"
  shows "round64 m e \<noteq> NotFinite \<and>
         \<bar>num_val (round64 m e) - real_of_int m * 2 powi e\<bar> \<le> (\<bar>real_of_int m * 2 powi e\<bar> + 1) / 2 ^ 53"
proof -
  define x where "x = real_of_int m * 2 powi e"
  obtain m' e' where rp: "round_pair m e = (m', e')" by (cases "round_pair m e")
  have err: "\<bar>real_of_int m' * 2 powi e' - x\<bar> \<le> (\<bar>x\<bar> + 1) / 2 ^ 53"
    using round_pair_error [OF rp] tiny_le by (simp add: x_def add_divide_distrib)
  have fin: "\<not> (m' \<noteq> 0 \<and> 1024 < bitlen \<bar>m'\<bar> + e')"
  proof
    assume a: "m' \<noteq> 0 \<and> 1024 < bitlen \<bar>m'\<bar> + e'"
    then have "0 < \<bar>m'\<bar>" by simp
    then have "2 ^ nat (bitlen \<bar>m'\<bar> - 1) \<le> \<bar>m'\<bar>" using bitlen_bounds by blast
    then have "real_of_int (2 ^ nat (bitlen \<bar>m'\<bar> - 1)) \<le> real_of_int \<bar>m'\<bar>" by (simp only: of_int_le_iff)
    moreover have "1 \<le> bitlen \<bar>m'\<bar>" using \<open>0 < \<bar>m'\<bar>\<close> bitlen_eq_zero_iff [of "\<bar>m'\<bar>"] bitlen_nonneg [of "\<bar>m'\<bar>"] by linarith
    ultimately have "2 powi (bitlen \<bar>m'\<bar> - 1) \<le> \<bar>real_of_int m'\<bar>"
      by (simp add: power_int_nonneg_exp)
    then have "2 powi (bitlen \<bar>m'\<bar> - 1) * 2 powi e' \<le> \<bar>real_of_int m'\<bar> * 2 powi e'"
      by (intro mult_right_mono) simp_all
    then have lo: "2 powi (bitlen \<bar>m'\<bar> - 1 + e') \<le> \<bar>real_of_int m' * 2 powi e'\<bar>"
      by (simp add: power_int_add abs_mult)
    define B :: real where "B = 2 ^ 1000"
    have B1: "1 \<le> B" unfolding B_def by (rule one_le_power) simp
    have xB: "\<bar>x\<bar> < B" using assms by (simp only: x_def B_def)
    have "(\<bar>x\<bar> + 1) / 2 ^ 53 \<le> (\<bar>x\<bar> + 1) / 2" by (intro divide_left_mono) simp_all
    moreover have "\<bar>real_of_int m' * 2 powi e'\<bar> - \<bar>x\<bar> \<le> \<bar>real_of_int m' * 2 powi e' - x\<bar>"
      by (rule abs_triangle_ineq2)
    ultimately have "\<bar>real_of_int m' * 2 powi e'\<bar> \<le> \<bar>x\<bar> + (\<bar>x\<bar> + 1) / 2" using err by linarith
    with xB B1 have "\<bar>real_of_int m' * 2 powi e'\<bar> < 2 * B" by (simp add: add_divide_distrib)
    moreover have "2 * B = 2 powi 1001" unfolding B_def by simp
    ultimately have "\<bar>real_of_int m' * 2 powi e'\<bar> < 2 powi 1001" by simp
    with lo have "(2::real) powi (bitlen \<bar>m'\<bar> - 1 + e') < 2 powi 1001" by linarith
    then have "bitlen \<bar>m'\<bar> - 1 + e' < 1001" by (rule power_int_le_imp_less_exp [rotated]) simp_all
    with a show False by linarith
  qed
  have "round64 m e = Num m' e'" using rp fin by (simp add: round64_def)
  then show ?thesis using err by (simp add: x_def)
qed

lemma js_mul_approx:
  assumes "x \<noteq> NotFinite" and "y \<noteq> NotFinite" and "\<bar>num_val x * num_val y\<bar> \<le> 2 ^ 100"
  shows "js_mul x y \<noteq> NotFinite"
    and "\<bar>num_val (js_mul x y) - num_val x * num_val y\<bar>
           \<le> \<bar>num_val x * num_val y\<bar> / 2 ^ 53 + 1 / 2 ^ 53"
proof -
  obtain m1 e1 m2 e2 where xy: "x = Num m1 e1" "y = Num m2 e2"
    using assms(1,2) by (cases x; cases y) auto
  have v: "real_of_int (m1 * m2) * 2 powi (e1 + e2) = num_val x * num_val y"
    by (simp add: xy power_int_add)
  have "(2::real) ^ 100 < 2 ^ 1000" by (rule power_strict_increasing) simp_all
  with assms(3) have "\<bar>real_of_int (m1 * m2) * 2 powi (e1 + e2)\<bar> < 2 ^ 1000"
    unfolding v by linarith
  from round64_approx [OF this] show "js_mul x y \<noteq> NotFinite"
    and "\<bar>num_val (js_mul x y) - num_val x * num_val y\<bar>
           \<le> \<bar>num_val x * num_val y\<bar> / 2 ^ 53 + 1 / 2 ^ 53"
    unfolding v by (simp_all add: xy add_divide_distrib)
qed

lemma js_add_approx:
  assumes "x \<noteq> NotFinite" and "y \<noteq> NotFinite" and "\<bar>num_val x + num_val y\<bar> \<le> 2 ^ 100"
  shows "js_add x y \<noteq> NotFinite"
    and "\<bar>num_val (js_add x y) - (num_val x + num_val y)\<bar>
           \<le> \<bar>num_val x + num_val y\<bar> / 2 ^ 53 + 1 / 2 ^ 53"
proof -
  obtain m1 e1 m2 e2 where xy: "x = Num m1 e1" "y = Num m2 e2"
    using assms(1,2) by (cases x; cases y) auto
  define e where "e = min e1 e2"
  have p1: "(2::real) ^ nat (e1 - e) * 2 powi e = 2 powi e1"
  proof -
    have "(2::real) powi ((e1 - e) + e) = 2 powi (e1 - e) * 2 powi e" by (rule power_int_add) simp
    moreover have "0 \<le> e1 - e" by (simp add: e_def)
    ultimately show ?thesis by (simp add: power_int_nonneg_exp)
  qed
  have p2: "(2::real) ^ nat (e2 - e) * 2 powi e = 2 powi e2"
  proof -
    have "(2::real) powi ((e2 - e) + e) = 2 powi (e2 - e) * 2 powi e" by (rule power_int_add) simp
    moreover have "0 \<le> e2 - e" by (simp add: e_def)
    ultimately show ?thesis by (simp add: power_int_nonneg_exp)
  qed
  have "real_of_int (m1 * 2 ^ nat (e1 - e) + m2 * 2 ^ nat (e2 - e)) * 2 powi e
          = real_of_int m1 * ((2::real) ^ nat (e1 - e) * 2 powi e)
            + real_of_int m2 * ((2::real) ^ nat (e2 - e) * 2 powi e)"
    by (simp add: algebra_simps)
  then have v: "real_of_int (m1 * 2 ^ nat (e1 - e) + m2 * 2 ^ nat (e2 - e)) * 2 powi e
          = num_val x + num_val y"
    by (simp only: p1 p2 xy num_val.simps)
  have "(2::real) ^ 100 < 2 ^ 1000" by (rule power_strict_increasing) simp_all
  with assms(3) have "\<bar>real_of_int (m1 * 2 ^ nat (e1 - e) + m2 * 2 ^ nat (e2 - e)) * 2 powi e\<bar> < 2 ^ 1000"
    unfolding v by linarith
  from round64_approx [OF this] show "js_add x y \<noteq> NotFinite"
    and "\<bar>num_val (js_add x y) - (num_val x + num_val y)\<bar>
           \<le> \<bar>num_val x + num_val y\<bar> / 2 ^ 53 + 1 / 2 ^ 53"
    unfolding v by (simp_all add: xy e_def [symmetric] Let_def add_divide_distrib)
qed

text \<open>The sum \<open>0.1 + 0.2\<close> is \<open>0.30000000000000004\<close>, the double after \<open>0.3\<close>.\<close>

lemma tenth_plus_fifth:
  "js_add (Num 3602879701896397 (- 55)) (Num 3602879701896397 (- 54)) = Num 5404319552844596 (- 54)"
  by code_simp

section \<open>Properties of the default retry delay\<close>

lemma double_0_3_val: "num_val double_0_3 = 5404319552844595 / 2 ^ 54"
  by (simp add: double_0_3_def power_int_minus_divide)

lemma double_0_3_nearest: "\<bar>num_val double_0_3 - 3 / 10\<bar> \<le> 1 / 2 ^ 55"
  by (simp add: double_0_3_val)

lemma width_of_window: "js_sub double_0_3 (js_neg double_0_3) = Num 5404319552844595 (- 53)"
  by code_simp

lemma pow2_53: "(2::real) ^ 53 = 9007199254740992" and pow2_54: "(2::real) ^ 54 = 18014398509481984"
  by simp_all

lemma err_mono:
  fixes d v b :: real
  assumes "\<bar>d - v\<bar> \<le> \<bar>v\<bar> / 2 ^ 53 + 1 / 2 ^ 53" and "\<bar>v\<bar> \<le> b"
  shows "\<bar>d - v\<bar> \<le> b / 2 ^ 53 + 1 / 2 ^ 53"
proof -
  have "\<bar>v\<bar> / 2 ^ 53 \<le> b / 2 ^ 53" using assms(2) by (intro divide_right_mono) simp_all
  with assms(1) show ?thesis by linarith
qed

lemma jitter_approx:
  assumes fin: "rnd \<noteq> NotFinite" and r0: "0 \<le> num_val rnd" and r1: "num_val rnd < 1"
  shows "numberBetween rnd (js_neg double_0_3) double_0_3 \<noteq> NotFinite"
    and "\<bar>num_val (numberBetween rnd (js_neg double_0_3) double_0_3) - (0.6 * num_val rnd - 0.3)\<bar>
           \<le> 4 / 2 ^ 53"
proof -
  define r where "r = num_val rnd"
  define w where "w = Num 5404319552844595 (- 53)"
  define P where "P = js_mul rnd w"
  define na where "na = js_neg double_0_3"
  have wv: "num_val w = 5404319552844595 / 2 ^ 53"
    by (simp add: w_def power_int_minus_divide)
  have nav: "num_val na = - (5404319552844595 / 2 ^ 54)"
    by (simp add: na_def double_0_3_def power_int_minus_divide)
  have naf: "na \<noteq> NotFinite" by (simp add: na_def double_0_3_def)
  have wf: "w \<noteq> NotFinite" by (simp add: w_def)
  have r0': "0 \<le> r" and r1': "r < 1" using r0 r1 by (simp_all add: r_def)
  have rw: "num_val rnd * num_val w = r * (5404319552844595 / 2 ^ 53)" by (simp add: r_def wv)
  have rw0: "0 \<le> r * (5404319552844595 / 2 ^ 53)" using r0' by simp
  have rw1: "r * (5404319552844595 / 2 ^ 53) \<le> 1" using r0' r1' unfolding pow2_53 by linarith
  have "\<bar>num_val rnd * num_val w\<bar> \<le> 2 ^ 100" unfolding rw using rw0 rw1 by simp
  note m = js_mul_approx [OF fin wf this]
  have Pf: "P \<noteq> NotFinite" using m(1) by (simp add: P_def)
  have "\<bar>r * (5404319552844595 / 2 ^ 53)\<bar> = r * (5404319552844595 / 2 ^ 53)"
    using rw0 by (rule abs_of_nonneg)
  then have Pe: "\<bar>num_val P - r * (5404319552844595 / 2 ^ 53)\<bar>
              \<le> r * (5404319552844595 / 2 ^ 53) / 2 ^ 53 + 1 / 2 ^ 53"
    using m(2) unfolding rw P_def [symmetric] by (simp only:)
  have Pb: "\<bar>num_val P - 0.6 * r\<bar> \<le> 21 / 10 / 2 ^ 53"
    using Pe r0' r1' unfolding pow2_53 by linarith
  have sb: "\<bar>num_val P + num_val na\<bar> \<le> 31 / 100"
    using Pb r0' r1' unfolding nav pow2_53 pow2_54 by linarith
  then have "\<bar>num_val P + num_val na\<bar> \<le> 2 ^ 100" by simp
  note a = js_add_approx [OF Pf naf this]
  have nb: "numberBetween rnd (js_neg double_0_3) double_0_3 = js_add P na"
    by (simp add: numberBetween_def width_of_window P_def w_def na_def)
  show "numberBetween rnd (js_neg double_0_3) double_0_3 \<noteq> NotFinite"
    using a(1) by (simp add: nb)
  have "\<bar>num_val (js_add P na) - (num_val P + num_val na)\<bar> \<le> 31 / 100 / 2 ^ 53 + 1 / 2 ^ 53"
    using a(2) sb by (rule err_mono)
  then have "\<bar>num_val (js_add P na) - (0.6 * r - 0.3)\<bar> \<le> 4 / 2 ^ 53"
    using Pb unfolding nav pow2_53 pow2_54 by linarith
  then show "\<bar>num_val (numberBetween rnd (js_neg double_0_3) double_0_3) - (0.6 * num_val rnd - 0.3)\<bar>
           \<le> 4 / 2 ^ 53"
    by (simp only: nb r_def)
qed

lemma pow2_40: "(2::real) ^ 40 = 1099511627776"
  by simp

text \<open>
  A \<open>Math.pow\<close> that rounds the square as a product is rounded returns the exact square
  for every attempt count up to \<open>2\<^sup>2\<^sup>6\<close>: it has at most 52 bits.
\<close>

lemma round64_small:
  assumes "\<bar>m\<bar> < 2 ^ 53"
  shows "round64 m 0 = Num m 0"
proof -
  have "bitlen \<bar>m\<bar> \<le> 53" using assms by (simp add: bitlen_le_iff_power)
  then show ?thesis by (simp add: round64_def round_pair_def)
qed

lemma square_pow_exact:
  assumes "1 \<le> n" and "n \<le> 2 ^ 26"
  shows "square_pow (js_sub (Num (int n) 0) (Num 1 0)) (Num 2 0) = Num ((int n - 1) ^ 2) 0"
proof -
  have a: "0 \<le> int n - 1" "int n - 1 \<le> 2 ^ 26" using assms by simp_all
  then have "\<bar>int n - 1\<bar> < 2 ^ 53" by simp
  then have s: "js_sub (Num (int n) 0) (Num 1 0) = Num (int n - 1) 0"
    by (simp add: round64_small)
  have "(int n - 1) ^ 2 \<le> (2 ^ 26) ^ 2" using a by (intro power_mono) simp_all
  then have "\<bar>(int n - 1) * (int n - 1)\<bar> < 2 ^ 53" by (simp add: power2_eq_square abs_mult)
  then show ?thesis unfolding s square_pow_def by (simp add: round64_small power2_eq_square)
qed

text \<open>
  At the third attempt with \<open>Math.random()\<close> returning 0 the delay is
  \<open>899.9999999999999\<close> milliseconds: \<open>1.2 - 0.3\<close> in doubles is the double before
  \<open>0.9\<close>. That is more than 300 away from \<open>300 * (3 - 1)\<^sup>2 = 1200\<close>.
\<close>

theorem retry_delay_counterexample:
  "square_pow (js_sub (Num 3 0) (Num 1 0)) (Num 2 0) = Num 4 0 \<and>
   default_retry_delay square_pow (Num 0 0) (Num 3 0) = Num 7916483719987199 (- 43) \<and>
   num_val (Num 7916483719987199 (- 43)) < 900 \<and>
   \<not> \<bar>num_val (default_retry_delay square_pow (Num 0 0) (Num 3 0)) - 300 * (3 - 1) ^ 2\<bar> \<le> 300"
proof -
  have a: "square_pow (js_sub (Num 3 0) (Num 1 0)) (Num 2 0) = Num 4 0" by code_simp
  have b: "default_retry_delay square_pow (Num 0 0) (Num 3 0) = Num 7916483719987199 (- 43)"
    by code_simp
  have c: "num_val (Num 7916483719987199 (- 43)) < 900"
    by (simp add: power_int_minus_divide)
  have d: "\<not> \<bar>num_val (Num 7916483719987199 (- 43)) - 300 * (3 - 1) ^ 2\<bar> \<le> 300"
    by (simp add: power_int_minus_divide)
  from a b c d show ?thesis by (simp only: simp_thms)
qed

text \<open>
  C9, as the code has it. The attempt count \<open>n\<close> is between 1 and \<open>2\<^sup>2\<^sup>6\<close>,
  \<open>Math.pow(n - 1, 2)\<close> returns the square, and \<open>Math.random()\<close> returns \<open>rnd\<close>, at
  least 0 and less than 1. Then the jitter \<open>j = 0.6 * rnd - 0.3\<close> is at least \<open>-0.3\<close>
  and less than \<open>0.3\<close>, and the default delay, computed in doubles, is a finite number
  that differs from \<open>(0.3 * (n - 1)\<^sup>2 + j) * 1000\<close> milliseconds by the rounding only, at
  most \<open>((n - 1)\<^sup>2 + 1) / 2\<^sup>4\<^sup>0\<close>. So it lies within
  \<open>300 + ((n - 1)\<^sup>2 + 1) / 2\<^sup>4\<^sup>0\<close> of \<open>300 * (n - 1)\<^sup>2\<close>.
\<close>

theorem retry_delay_window:
  assumes n1: "1 \<le> n" and n2: "n \<le> 2 ^ 26"
      and pwf: "Math_pow (js_sub (Num (int n) 0) (Num 1 0)) (Num 2 0) \<noteq> NotFinite"
      and pwv: "num_val (Math_pow (js_sub (Num (int n) 0) (Num 1 0)) (Num 2 0)) = (real n - 1) ^ 2"
      and fin: "rnd \<noteq> NotFinite" and r0: "0 \<le> num_val rnd" and r1: "num_val rnd < 1"
  shows "default_retry_delay Math_pow rnd (Num (int n) 0) \<noteq> NotFinite \<and>
         - 0.3 \<le> 0.6 * num_val rnd - 0.3 \<and> 0.6 * num_val rnd - 0.3 < 0.3 \<and>
         \<bar>num_val (default_retry_delay Math_pow rnd (Num (int n) 0))
            - (0.3 * (real n - 1) ^ 2 + (0.6 * num_val rnd - 0.3)) * 1000\<bar>
           \<le> ((real n - 1) ^ 2 + 1) / 2 ^ 40 \<and>
         \<bar>num_val (default_retry_delay Math_pow rnd (Num (int n) 0)) - 300 * (real n - 1) ^ 2\<bar>
           \<le> 300 + ((real n - 1) ^ 2 + 1) / 2 ^ 40"
proof -
  define r where "r = num_val rnd"
  define s where "s = (real n - 1) ^ 2"
  define J where "J = numberBetween rnd (js_neg double_0_3) double_0_3"
  define Q where "Q = Math_pow (js_sub (Num (int n) 0) (Num 1 0)) (Num 2 0)"
  define S where "S = js_mul double_0_3 Q"
  define T where "T = js_add S J"
  define D where "D = js_mul T (Num 1000 0)"
  have r0': "0 \<le> r" and r1': "r < 1" using r0 r1 by (simp_all add: r_def)
  have s0: "0 \<le> s" by (simp add: s_def)
  have "real n - 1 \<le> 2 ^ 26" using n2 by (simp add: of_nat_le_iff [of n "2 ^ 26", where ?'a = real, simplified])
  moreover have "0 \<le> real n - 1" using n1 by simp
  ultimately have "(real n - 1) ^ 2 \<le> (2 ^ 26) ^ 2" by (rule power_mono)
  then have s1: "s \<le> 4503599627370496" by (simp add: s_def)
  have sv: "num_val Q = s" and Qf: "Q \<noteq> NotFinite"
    using pwv pwf by (simp_all add: Q_def s_def)
  have del: "default_retry_delay Math_pow rnd (Num (int n) 0) = D"
    by (simp only: default_retry_delay_def Let_def D_def T_def S_def J_def Q_def)
  have Jf: "J \<noteq> NotFinite" and Je: "\<bar>num_val J - (0.6 * r - 0.3)\<bar> \<le> 4 / 2 ^ 53"
    using jitter_approx [OF fin r0 r1] by (simp_all add: J_def r_def)
  have av: "num_val double_0_3 * s = 5404319552844595 / 2 ^ 54 * s"
    by (simp add: double_0_3_val)
  have as0: "0 \<le> 5404319552844595 / 2 ^ 54 * s" using s0 by simp
  have af: "double_0_3 \<noteq> NotFinite" by (simp add: double_0_3_def)
  have "\<bar>num_val double_0_3 * num_val Q\<bar> \<le> 2 ^ 100"
    unfolding sv av using s0 s1 by (simp add: abs_mult)
  note m1 = js_mul_approx [OF af Qf this]
  have Sf: "S \<noteq> NotFinite" using m1(1) by (simp add: S_def)
  have "\<bar>5404319552844595 / 2 ^ 54 * s\<bar> = 5404319552844595 / 2 ^ 54 * s"
    using as0 by (rule abs_of_nonneg)
  then have Se: "\<bar>num_val S - 5404319552844595 / 2 ^ 54 * s\<bar>
                   \<le> 5404319552844595 / 2 ^ 54 * s / 2 ^ 53 + 1 / 2 ^ 53"
    using m1(2) unfolding sv av S_def [symmetric] by (simp only:)
  have Sb: "\<bar>num_val S - 0.3 * s\<bar> \<le> 55 / 100 * s / 2 ^ 53 + 1 / 2 ^ 53"
    using Se s0 unfolding pow2_53 pow2_54 by linarith
  have tb: "\<bar>num_val S + num_val J\<bar> \<le> 31 / 100 * s + 4 / 10"
    using Sb Je s0 s1 r0' r1' unfolding pow2_53 by linarith
  then have "\<bar>num_val S + num_val J\<bar> \<le> 2 ^ 100" using s1 by simp
  note a = js_add_approx [OF Sf Jf this]
  have Tf: "T \<noteq> NotFinite" using a(1) by (simp add: T_def)
  have "\<bar>num_val T - (num_val S + num_val J)\<bar> \<le> (31 / 100 * s + 4 / 10) / 2 ^ 53 + 1 / 2 ^ 53"
    using a(2) tb unfolding T_def [symmetric] by (rule err_mono)
  then have "\<bar>num_val T - (num_val S + num_val J)\<bar> \<le> 31 / 100 * s / 2 ^ 53 + 4 / 10 / 2 ^ 53 + 1 / 2 ^ 53"
    by (simp only: add_divide_distrib)
  then have Tb: "\<bar>num_val T - (0.3 * s + (0.6 * r - 0.3))\<bar> \<le> 86 / 100 * s / 2 ^ 53 + 64 / 10 / 2 ^ 53"
    using Sb Je unfolding pow2_53 by linarith
  have "\<bar>num_val T * 1000\<bar> \<le> 301 * s + 310"
    using Tb s0 s1 r0' r1' unfolding pow2_53 by linarith
  then have db: "\<bar>num_val T * num_val (Num 1000 0)\<bar> \<le> 301 * s + 310" by simp
  then have "\<bar>num_val T * num_val (Num 1000 0)\<bar> \<le> 2 ^ 100" using s1 by simp
  note m2 = js_mul_approx [OF Tf double.distinct(1) this]
  have Df: "D \<noteq> NotFinite" using m2(1) by (simp add: D_def)
  have tv: "num_val T * num_val (Num 1000 0) = num_val T * 1000" by simp
  have "\<bar>num_val D - num_val T * 1000\<bar> \<le> (301 * s + 310) / 2 ^ 53 + 1 / 2 ^ 53"
    using m2(2) db unfolding D_def [symmetric] tv by (rule err_mono)
  then have "\<bar>num_val D - num_val T * 1000\<bar> \<le> 301 * s / 2 ^ 53 + 310 / 2 ^ 53 + 1 / 2 ^ 53"
    by (simp only: add_divide_distrib)
  then have Dx: "\<bar>num_val D - (300 * s + (600 * r - 300))\<bar> \<le> s / 2 ^ 40 + 1 / 2 ^ 40"
    using Tb s0 unfolding pow2_53 pow2_40 by linarith
  have eqx: "(0.3 * s + (0.6 * r - 0.3)) * 1000 = 300 * s + (600 * r - 300)" by simp
  have Db: "\<bar>num_val D - (0.3 * s + (0.6 * r - 0.3)) * 1000\<bar> \<le> (s + 1) / 2 ^ 40"
    using Dx unfolding eqx by (simp only: add_divide_distrib)
  have "\<bar>num_val D - 300 * s\<bar> \<le> 300 + (s / 2 ^ 40 + 1 / 2 ^ 40)"
    using Dx r0' r1' unfolding pow2_40 by linarith
  then have Dw: "\<bar>num_val D - 300 * s\<bar> \<le> 300 + (s + 1) / 2 ^ 40"
    by (simp only: add_divide_distrib)
  show ?thesis
    using Df Db Dw r0' r1' unfolding del s_def r_def by simp
qed

theorem retry_delay_window_witness:
  "(1::nat) \<le> 3 \<and> (3::nat) \<le> 2 ^ 26 \<and>
   square_pow (js_sub (Num (int 3) 0) (Num 1 0)) (Num 2 0) \<noteq> NotFinite \<and>
   num_val (square_pow (js_sub (Num (int 3) 0) (Num 1 0)) (Num 2 0)) = (real 3 - 1) ^ 2 \<and>
   Num 1 (- 2) \<noteq> NotFinite \<and> 0 \<le> num_val (Num 1 (- 2)) \<and> num_val (Num 1 (- 2)) < 1 \<and>
   0.6 * num_val (Num 1 (- 2)) - 0.3 = - 0.15 \<and>
   default_retry_delay square_pow (Num 1 (- 2)) (Num (int 3) 0) \<noteq> NotFinite \<and>
   \<bar>num_val (default_retry_delay square_pow (Num 1 (- 2)) (Num (int 3) 0))
      - (0.3 * (real 3 - 1) ^ 2 + (0.6 * num_val (Num 1 (- 2)) - 0.3)) * 1000\<bar>
     \<le> ((real 3 - 1) ^ 2 + 1) / 2 ^ 40 \<and>
   \<bar>num_val (default_retry_delay square_pow (Num 1 (- 2)) (Num (int 3) 0)) - 300 * (real 3 - 1) ^ 2\<bar>
     \<le> 300 + ((real 3 - 1) ^ 2 + 1) / 2 ^ 40"
proof -
  have q: "square_pow (js_sub (Num (int 3) 0) (Num 1 0)) (Num 2 0) = Num 4 0" by code_simp
  have h1: "square_pow (js_sub (Num (int 3) 0) (Num 1 0)) (Num 2 0) \<noteq> NotFinite"
    by (simp only: q double.distinct simp_thms)
  have h2: "num_val (square_pow (js_sub (Num (int 3) 0) (Num 1 0)) (Num 2 0)) = (real 3 - 1) ^ 2"
    unfolding q by simp
  have h3: "0 \<le> num_val (Num 1 (- 2))" "num_val (Num 1 (- 2)) < 1"
       "0.6 * num_val (Num 1 (- 2)) - 0.3 = - 0.15"
    by (simp_all add: power_int_minus_divide)
  from retry_delay_window [of 3 square_pow "Num 1 (- 2)", OF _ _ h1 h2 _ h3(1,2)] h1 h2 h3
  show ?thesis by simp
qed

section \<open>Properties of the transport adapter\<close>

text \<open>
  What \<open>extend\<close> keeps and what it makes anew: the API key, the organization id, the
  resolved base URL, the other options and the reference to the hooks object are those of
  the original; the headers are a new record, the original's merged with the overrides,
  and no header record that was there before is written to.
\<close>

lemma resolve_base_url_nonempty: "resolve_base_url b p \<noteq> []"
  by (cases b; cases p) (auto simp: resolve_base_url_def DEFAULT_BASE_URL_def)

lemma resolve_base_url_idem:
  "resolve_base_url (Some (resolve_base_url b p)) p = resolve_base_url b p"
  using resolve_base_url_nonempty [of b p]
  by (simp add: resolve_base_url_def [of "Some (resolve_base_url b p)"])

lemma install_normalizer_headers [simp]:
  "headers_at (snd (install_normalizer h w)) = headers_at w"
  by (simp add: install_normalizer_def alloc_hooks_def alloc_array_def push_hook_def Let_def
      split: option.splits prod.splits)

lemma install_normalizer_fresh:
  "install_normalizer None w = (h, w') \<Longrightarrow>
     h = fresh w \<and> beforeError (hooks_at w' h) = Some (Suc (fresh w)) \<and>
     array_at w' (Suc (fresh w)) = [Normalizer] \<and> fresh w' = Suc (Suc (fresh w)) \<and>
     (\<forall>x. x \<noteq> fresh w \<longrightarrow> hooks_at w' x = hooks_at w x) \<and>
     (\<forall>x. x \<noteq> Suc (fresh w) \<longrightarrow> array_at w' x = array_at w x)"
  by (auto simp: install_normalizer_def alloc_hooks_def alloc_array_def push_hook_def Let_def)

lemma createApiInstance_fields:
  assumes "createApiInstance args w = (a, w')"
  shows "ad_apiKey a = arg_apiKey args" and "ad_baseUrl a = arg_baseUrl args"
    and "ad_organizationId a = arg_organizationId args"
    and "ad_kyOptions a = (case arg_kyOptions args of None \<Rightarrow> empty_ky_options | Some k \<Rightarrow> k)"
    and "k_prefixUrl (ad_kyBase a) = resolve_base_url (ad_baseUrl a) (ko_prefixUrl (ad_kyOptions a))"
    and "k_rest (ad_kyBase a) = ko_rest (ad_kyOptions a)"
    and "k_headers (ad_kyBase a) =
           default_headers (ad_apiKey a) (ad_organizationId a) (headers_of w (ko_headers (ad_kyOptions a)))"
    and "headers_at w' = headers_at w"
    and "(k_hooks (ad_kyBase a), w') = install_normalizer (ko_hooks (ad_kyOptions a)) w"
  using assms
  by (auto simp: createApiInstance_def Let_def headers_of_def split: prod.splits)
     (metis install_normalizer_headers snd_conv)+

lemma extend_as_create:
  "extend a ov w =
     createApiInstance
       \<lparr>arg_apiKey = ad_apiKey a,
        arg_baseUrl = Some (resolve_base_url (ad_baseUrl a) (ko_prefixUrl (ad_kyOptions a))),
        arg_organizationId = ad_organizationId a,
        arg_kyOptions = Some ((ad_kyOptions a)\<lparr>ko_headers := Some (fresh w)\<rparr>)\<rparr>
       (w\<lparr>headers_at := (headers_at w)(fresh w :=
              spread (spread [] (headers_of w (ko_headers (ad_kyOptions a))))
                     (case ro_headers ov of None \<Rightarrow> [] | Some h \<Rightarrow> h)),
          fresh := Suc (fresh w)\<rparr>)"
  by (simp add: extend_def alloc_headers_def Let_def)

lemma extend_keeps_identity:
  assumes "createApiInstance args w0 = (orig, w1)" and "extend orig ov w = (derived, w')"
  shows "ad_apiKey derived = ad_apiKey orig"
    and "ad_organizationId derived = ad_organizationId orig"
    and "k_prefixUrl (ad_kyBase derived) = k_prefixUrl (ad_kyBase orig)"
    and "k_rest (ad_kyBase derived) = k_rest (ad_kyBase orig)"
    and "ko_hooks (ad_kyOptions derived) = ko_hooks (ad_kyOptions orig)"
proof -
  note d = createApiInstance_fields [OF assms(2) [unfolded extend_as_create]]
  note o = createApiInstance_fields [OF assms(1)]
  show "ad_apiKey derived = ad_apiKey orig" using d(1) by simp
  show "ad_organizationId derived = ad_organizationId orig" using d(3) by simp
  show "k_prefixUrl (ad_kyBase derived) = k_prefixUrl (ad_kyBase orig)"
    using d(5) d(2) d(4) o(5) by (simp add: resolve_base_url_idem)
  show "k_rest (ad_kyBase derived) = k_rest (ad_kyBase orig)" using d(6) d(4) o(6) by simp
  show "ko_hooks (ad_kyOptions derived) = ko_hooks (ad_kyOptions orig)" using d(4) by simp
qed

lemma extend_headers:
  assumes "extend a ov w = (derived, w')"
  shows "headers_of w' (ko_headers (ad_kyOptions derived)) =
           spread (spread [] (headers_of w (ko_headers (ad_kyOptions a))))
                  (case ro_headers ov of None \<Rightarrow> [] | Some h \<Rightarrow> h)"
    and "\<forall>x. x \<noteq> fresh w \<longrightarrow> headers_at w' x = headers_at w x"
proof -
  note d = createApiInstance_fields [OF assms [unfolded extend_as_create]]
  show "headers_of w' (ko_headers (ad_kyOptions derived)) =
           spread (spread [] (headers_of w (ko_headers (ad_kyOptions a))))
                  (case ro_headers ov of None \<Rightarrow> [] | Some h \<Rightarrow> h)"
    using d(4) d(8) by (simp add: headers_of_def)
  show "\<forall>x. x \<noteq> fresh w \<longrightarrow> headers_at w' x = headers_at w x"
    using d(8) by simp
qed

lemma extend_headers_merge:
  assumes "extend a ov w = (derived, w')" and "ro_headers ov = Some h" and "distinct (map fst h)"
      and "distinct (map fst (headers_of w (ko_headers (ad_kyOptions a))))"
  shows "map_of (headers_of w' (ko_headers (ad_kyOptions derived))) k =
           (case map_of h k of
              Some v \<Rightarrow> Some v
            | None \<Rightarrow> map_of (headers_of w (ko_headers (ad_kyOptions a))) k)"
  using extend_headers(1) [OF assms(1)] assms(2,3,4)
  by (simp add: map_of_spread_rev map_of_rev_distinct map_add_def)

text \<open>
  When the options of the client carry no hooks object, every call of
  \<open>createApiInstance\<close> makes its own, and the original adapter and the derived one each
  hold the normalizer once.
\<close>

lemma created_without_caller_hooks:
  assumes "createApiInstance args w = (a, w')" and "ko_hooks (ad_kyOptions a) = None"
  shows "beforeError_hooks w' (ad_kyBase a) = [Normalizer]"
    and "k_hooks (ad_kyBase a) = fresh w"
    and "beforeError (hooks_at w' (fresh w)) = Some (Suc (fresh w))"
    and "fresh w' = Suc (Suc (fresh w))"
    and "\<forall>x. x \<noteq> fresh w \<longrightarrow> hooks_at w' x = hooks_at w x"
    and "\<forall>x. x \<noteq> Suc (fresh w) \<longrightarrow> array_at w' x = array_at w x"
proof -
  have i: "install_normalizer None w = (k_hooks (ad_kyBase a), w')"
    using createApiInstance_fields(9) [OF assms(1)] assms(2) by simp
  note f = install_normalizer_fresh [OF i]
  show "beforeError_hooks w' (ad_kyBase a) = [Normalizer]" using f by (auto simp: beforeError_hooks_def)
  show "k_hooks (ad_kyBase a) = fresh w" using f by simp
  show "beforeError (hooks_at w' (fresh w)) = Some (Suc (fresh w))" using f by auto
  show "fresh w' = Suc (Suc (fresh w))" using f by simp
  show "\<forall>x. x \<noteq> fresh w \<longrightarrow> hooks_at w' x = hooks_at w x" using f by simp
  show "\<forall>x. x \<noteq> Suc (fresh w) \<longrightarrow> array_at w' x = array_at w x" using f by simp
qed

lemma normalizer_once_without_caller_hooks:
  assumes c: "createApiInstance args w0 = (orig, w1)" and n: "ko_hooks (ad_kyOptions orig) = None"
      and e: "extend orig ov w1 = (derived, w2)"
  shows "beforeError_hooks w1 (ad_kyBase orig) = [Normalizer]"
    and "beforeError_hooks w2 (ad_kyBase orig) = [Normalizer]"
    and "beforeError_hooks w2 (ad_kyBase derived) = [Normalizer]"
proof -
  note o = created_without_caller_hooks [OF c n]
  have n': "ko_hooks (ad_kyOptions derived) = None"
    using extend_keeps_identity(5) [OF c e] n by simp
  note d = created_without_caller_hooks [OF e [unfolded extend_as_create] n']
  show "beforeError_hooks w1 (ad_kyBase orig) = [Normalizer]" by (rule o(1))
  show "beforeError_hooks w2 (ad_kyBase derived) = [Normalizer]" by (rule d(1))
  have "hooks_at w2 (fresh w0) = hooks_at w1 (fresh w0)" using d(5) o(4) by simp
  moreover have "array_at w2 (Suc (fresh w0)) = array_at w1 (Suc (fresh w0))" using d(6) o(4) by simp
  ultimately show "beforeError_hooks w2 (ad_kyBase orig) = [Normalizer]"
    using o(1) o(2) o(3) by (simp add: beforeError_hooks_def)
qed

text \<open>
  C1. The options of a client carry a hooks object of the caller, \<open>{}\<close> at address 0.
  \<open>createApiInstance\<close> stores a new array in its \<open>beforeError\<close> property, at address 1, and
  pushes the normalizer. \<open>extend\<close> copies the options with a spread, which copies the
  reference to the hooks object and not the object, so the derived adapter's
  \<open>createApiInstance\<close> pushes a second normalizer on the same array: the hooks of the
  original adapter's configuration are not what they were before \<open>extend\<close>, and the two
  adapters share the hooks object.
\<close>

theorem extend_mutates_parent_hooks:
  "(let (orig, w1) = createApiInstance hooks_args hooks_world;
        (derived, w2) = extend orig \<lparr>ro_headers = Some [(''A'', JStr ''x'')], ro_signal = JUndefined\<rparr> w1
    in ko_hooks (ad_kyOptions orig) = Some 0 \<and>
       beforeError (hooks_at w1 0) = Some 1 \<and> array_at w1 1 = [Normalizer] \<and>
       beforeError (hooks_at w2 0) = Some 1 \<and> array_at w2 1 = [Normalizer, Normalizer] \<and>
       k_hooks (ad_kyBase derived) = k_hooks (ad_kyBase orig))"
  by (simp add: createApiInstance_def extend_def hooks_args_def hooks_world_def empty_world_def
        install_normalizer_def alloc_array_def alloc_headers_def push_hook_def empty_ky_options_def
        headers_of_def Let_def)

text \<open>
  C2. With the same client, a response with status 500 fails on the derived adapter. Its
  array of error hooks holds the normalizer twice, so the normalization step runs twice
  for the one response: the first run makes the structured error, the second finds no
  response on it and wraps it with \<open>APIError.generate\<close>. The array holds both
  normalizers from the moment the derived instance is made, so the count is the same
  whether the fetch wrapper copies the array then or reads it when the response fails.
\<close>

theorem derived_adapter_normalizes_twice:
  "(let (orig, w1) = createApiInstance hooks_args hooks_world;
        (derived, w2) = extend orig \<lparr>ro_headers = None, ro_signal = JUndefined\<rparr> w1
    in beforeError_hooks w2 (ad_kyBase derived) = [Normalizer, Normalizer] \<and>
       run_beforeError JSON_parse user (beforeError_hooks w2 (ad_kyBase derived))
         (HTTPError (Response 500 HNullish None))
       = (APIError_generate (APIError 500 JUndefined None []), 2))"
  by (simp add: createApiInstance_def extend_def hooks_args_def hooks_world_def empty_world_def
        install_normalizer_def alloc_array_def alloc_headers_def push_hook_def empty_ky_options_def
        headers_of_def beforeError_hooks_def normalizer_def Let_def)

section \<open>Properties of the client\<close>

lemma sent_install [simp]: "sent (snd (install_normalizer h w)) = sent w"
  by (simp add: install_normalizer_def alloc_hooks_def alloc_array_def push_hook_def Let_def
      split: option.splits prod.splits)

lemma sent_createApiInstance [simp]: "sent (snd (createApiInstance args w)) = sent w"
  by (simp add: createApiInstance_def Let_def split: prod.splits)
     (metis sent_install snd_conv)

lemma sent_extend [simp]: "sent (snd (extend a ov w)) = sent w"
  by (simp add: extend_as_create)

lemma sent_getApi [simp]: "sent (snd (getApi api opts w)) = sent w"
  by (simp add: getApi_def split: option.splits)

lemma extend_ignores_signal:
  "extend a \<lparr>ro_headers = h, ro_signal = s\<rparr> w = extend a \<lparr>ro_headers = h, ro_signal = JUndefined\<rparr> w"
  by (simp add: extend_def)

text \<open>
  C3. A call is made with request options that hold a cancellation signal \<open>s\<close>. \<open>getApi\<close>
  hands the options to \<open>extend\<close>, which reads their headers only, and the method passes no
  signal to \<open>post\<close>: the call is the same as with no signal at all, and the request that
  goes out has \<open>signal: undefined\<close>.
\<close>

theorem per_call_signal_dropped:
  "createChatCompletion kypost api params (Some \<lparr>ro_headers = h, ro_signal = s\<rparr>) w =
     createChatCompletion kypost api params (Some \<lparr>ro_headers = h, ro_signal = JUndefined\<rparr>) w \<and>
   map ob_signal (sent (snd (createChatCompletion kypost api params (Some \<lparr>ro_headers = h, ro_signal = s\<rparr>) w)))
     = map ob_signal (sent w) @ [JUndefined]"
proof -
  obtain a w1 where g: "getApi api (Some \<lparr>ro_headers = h, ro_signal = s\<rparr>) w = (a, w1)"
    by (cases "getApi api (Some \<lparr>ro_headers = h, ro_signal = s\<rparr>) w")
  then have s: "sent w1 = sent w"
    using sent_getApi [of api "Some \<lparr>ro_headers = h, ro_signal = s\<rparr>" w] by simp
  have "createChatCompletion kypost api params (Some \<lparr>ro_headers = h, ro_signal = s\<rparr>) w =
     createChatCompletion kypost api params (Some \<lparr>ro_headers = h, ro_signal = JUndefined\<rparr>) w"
    by (simp add: createChatCompletion_def getApi_def extend_ignores_signal [of api h s w])
  moreover have "map ob_signal (sent (snd (createChatCompletion kypost api params (Some \<lparr>ro_headers = h, ro_signal = s\<rparr>) w)))
     = map ob_signal (sent w) @ [JUndefined]"
    using g s by (simp add: createChatCompletion_def post_def json_opts_def Let_def)
  ultimately show ?thesis by simp
qed

text \<open>The same at a sample call: the request as the fetch wrapper receives it.\<close>

lemma signal_dropped_at_sample:
  "sent (snd (createChatCompletion respond_ok sample_api [(''model'', JStr ''gpt-4'')]
               (Some \<lparr>ro_headers = None, ro_signal = JHost 7\<rparr>) sample_world))
   = [\<lparr>ob_ky = \<lparr>k_prefixUrl = ''https://api.openai.com/v1'',
                k_headers = [(''User-Agent'', JStr ''openai-fetch''), (''Authorization'', JStr ''Bearer sk-test'')],
                k_retry = DefaultRetry, k_timeout = JNum 600000, k_hooks = 3, k_rest = []\<rparr>,
       ob_path = ''chat/completions'', ob_json = JObj [(''model'', JStr ''gpt-4'')],
       ob_body = None, ob_headers = None, ob_signal = JUndefined\<rparr>]"
  by (simp add: createChatCompletion_def getApi_def extend_def createApiInstance_def post_def json_opts_def
        sample_api_def sample_world_def sample_args_def empty_world_def
        install_normalizer_def alloc_array_def alloc_hooks_def alloc_headers_def push_hook_def empty_ky_options_def
        headers_of_def resolve_base_url_def DEFAULT_BASE_URL_def default_headers_def spread_def Let_def)

lemma spread_stream: "map_of (spread a [(''stream'', JBool True)]) ''stream'' = Some (JBool True)"
  by (simp add: map_of_spread_rev)

text \<open>
  C10. Whatever the parameters and the request options, \<open>streamChatCompletion\<close> and
  \<open>streamCompletion\<close> each send one request, and its JSON body is an object whose \<open>stream\<close>
  property is \<open>true\<close>.
\<close>

theorem stream_flag_forced:
  "(\<exists>req body. sent (snd (streamChatCompletion kypost api params opts w)) = sent w @ [req] \<and>
        ob_path req = ''chat/completions'' \<and> ob_json req = JObj body \<and> ob_body req = None \<and>
        map_of body ''stream'' = Some (JBool True)) \<and>
   (\<exists>req body. sent (snd (streamCompletion kypost api params opts w)) = sent w @ [req] \<and>
        ob_path req = ''completions'' \<and> ob_json req = JObj body \<and> ob_body req = None \<and>
        map_of body ''stream'' = Some (JBool True))"
proof -
  obtain a w1 where g: "getApi api opts w = (a, w1)" by (cases "getApi api opts w")
  then have s: "sent w1 = sent w" using sent_getApi [of api opts w] by simp
  show ?thesis
    using g s
    by (simp add: streamChatCompletion_def streamCompletion_def post_def json_opts_def Let_def
          spread_stream)
qed

theorem stream_flag_forced_witness:
  "\<exists>req body.
      sent (snd (streamChatCompletion respond_ok sample_api [(''stream'', JBool False)] None sample_world)) =
        sent sample_world @ [req] \<and>
      ob_path req = ''chat/completions'' \<and> ob_json req = JObj body \<and> ob_body req = None \<and>
      map_of body ''stream'' = Some (JBool True)"
  using stream_flag_forced [of respond_ok sample_api "[(''stream'', JBool False)]" None sample_world]
  by blast

text \<open>
  C8. When the parameters of a transcription have no \<open>file\<close> field, \<open>createTranscription\<close>
  throws the error \<open>Transcription requires a file\<close> and leaves the world as it was: no
  request has been handed to the fetch wrapper.
\<close>

theorem missing_file_rejected:
  assumes "map_of params ''file'' = None"
  shows "createTranscription kypost api params opts w =
           (Inl (PlainError ''Transcription requires a file''), w)"
  using assms by (simp add: createTranscription_def)

theorem missing_file_rejected_witness:
  "map_of [(''model'', JStr ''whisper-1'')] ''file'' = None \<and>
   createTranscription respond_ok sample_api [(''model'', JStr ''whisper-1'')] None sample_world =
     (Inl (PlainError ''Transcription requires a file''), sample_world) \<and>
   sent sample_world = []"
  using missing_file_rejected [of "[(''model'', JStr ''whisper-1'')]" respond_ok sample_api None sample_world]
  by (simp add: sample_world_def empty_world_def)







section \<open>Properties of the stream chunk decoder\<close>

text \<open>
  Cutting the bytes differently does not change the frames: the frames of a buffer with
  more bytes appended are the frames of the buffer, then those of its remainder with the
  new bytes.
\<close>

lemma split_frames_no_frame: "split_frames x = ([], r) \<Longrightarrow> r = x"
  by (induction x arbitrary: r rule: split_frames.induct)
     (auto split: prod.splits list.splits if_splits)

lemma split_frames_append:
  "split_frames (x @ c) =
     (case split_frames x of (fs, r) \<Rightarrow> case split_frames (r @ c) of (gs, r') \<Rightarrow> (fs @ gs, r'))"
proof (induction x rule: split_frames.induct)
  case 1
  then show ?case by (simp split: prod.splits)
next
  case (2 a)
  then show ?case by (simp split: prod.splits)
next
  case (3 a d rest)
  show ?case
  proof (cases "a = NL \<and> d = NL")
    case True
    with 3 show ?thesis by (simp split: prod.splits)
  next
    case False
    obtain fs1 r1 where s1: "split_frames (d # rest) = (fs1, r1)" by (cases "split_frames (d # rest)")
    obtain gs r' where s2: "split_frames (r1 @ c) = (gs, r')" by (cases "split_frames (r1 @ c)")
    from 3(2) False s1 s2 have ih: "split_frames (d # rest @ c) = (fs1 @ gs, r')" by simp
    show ?thesis
    proof (cases fs1)
      case Nil
      with s1 have r1: "r1 = d # rest" by (simp add: split_frames_no_frame)
      from Nil s1 s2 r1 False ih show ?thesis by (auto split: prod.splits list.splits)
    next
      case (Cons g gs')
      with s1 s2 False ih show ?thesis by (auto split: prod.splits list.splits)
    qed
  qed
qed

text \<open>
  Hence what the decoder yields, and how it ends, depends on the bytes received and not on
  the chunks they came in; and the values yielded only grow as more bytes arrive.
\<close>

lemma process_closed: "phase d \<noteq> Open \<Longrightarrow> foldl (process_frame P f) d fs = d"
  by (induction fs) (simp_all add: process_frame_def)

lemma set_buffer_simps [simp]:
  "buffer (set_buffer b d) = b" "yielded (set_buffer b d) = yielded d" "phase (set_buffer b d) = phase d"
  "set_buffer b (set_buffer c d) = set_buffer b d"
  by (simp_all add: set_buffer_def)

lemma process_frame_buffer:
  "process_frame P f (set_buffer b d) fr = set_buffer b (process_frame P f d fr)"
  by (simp add: process_frame_def set_buffer_def split: option.splits sum.splits)

lemma process_buffer:
  "foldl (process_frame P f) (set_buffer b d) fs = set_buffer b (foldl (process_frame P f) d fs)"
  by (induction fs arbitrary: d) (simp_all add: process_frame_buffer)

lemma feed_unfold:
  "phase d = Open \<Longrightarrow> split_frames (buffer d @ c) = (fs, r) \<Longrightarrow>
     feed P f d c = foldl (process_frame P f) (set_buffer r d) fs"
  by (simp add: feed_def set_buffer_def)

lemma set_buffer_same: "buffer d = b \<Longrightarrow> set_buffer b d = d"
  by (cases d) (simp add: set_buffer_def)

lemma process_frame_buffer_same: "buffer (process_frame P f d fr) = buffer d"
  by (simp add: process_frame_def split: option.splits sum.splits)

lemma process_buffer_same: "buffer (foldl (process_frame P f) d fs) = buffer d"
  by (induction fs arbitrary: d) (simp_all add: process_frame_buffer_same)

lemma process_frame_yielded: "prefix (yielded d) (yielded (process_frame P f d fr))"
  by (simp add: process_frame_def split: option.splits sum.splits)

lemma process_yielded: "prefix (yielded d) (yielded (foldl (process_frame P f) d fs))"
proof (induction fs arbitrary: d)
  case Nil
  show ?case by simp
next
  case (Cons fr fs)
  have "prefix (yielded d) (yielded (process_frame P f d fr))" by (rule process_frame_yielded)
  also have "prefix \<dots> (yielded (foldl (process_frame P f) (process_frame P f d fr) fs))" by (rule Cons.IH)
  finally show ?case by simp
qed

lemma feed_closed: "phase d \<noteq> Open \<Longrightarrow> feed P f d c = d"
  by (simp add: feed_def)

lemma feeds_closed: "phase d \<noteq> Open \<Longrightarrow> foldl (feed P f) d cs = d"
  by (induction cs) (simp_all add: feed_closed)

lemma feed_yielded: "prefix (yielded d) (yielded (feed P f d c))"
proof (cases "phase d = Open")
  case True
  obtain fs r where s: "split_frames (buffer d @ c) = (fs, r)" by (cases "split_frames (buffer d @ c)")
  have "prefix (yielded (set_buffer r d)) (yielded (foldl (process_frame P f) (set_buffer r d) fs))"
    by (rule process_yielded)
  with True s show ?thesis by (simp add: feed_unfold)
next
  case False
  then show ?thesis by (simp add: feed_closed)
qed

lemma feed_append:
  assumes "phase d = Open"
  shows "outcome (feed P f (feed P f d a) b) = outcome (feed P f d (a @ b))"
    and "phase (feed P f d a) = Open \<Longrightarrow> feed P f (feed P f d a) b = feed P f d (a @ b)"
proof -
  obtain fs r where s1: "split_frames (buffer d @ a) = (fs, r)" by (cases "split_frames (buffer d @ a)")
  obtain gs r' where s2: "split_frames (r @ b) = (gs, r')" by (cases "split_frames (r @ b)")
  have s3: "split_frames (buffer d @ a @ b) = (fs @ gs, r')"
    using split_frames_append [of "buffer d @ a" b] s1 s2 by simp
  define d1 where "d1 = foldl (process_frame P f) (set_buffer r d) fs"
  have f1: "feed P f d a = d1" using assms s1 by (simp add: feed_unfold d1_def)
  have b1: "buffer d1 = r" by (simp add: d1_def process_buffer_same)
  have "feed P f d (a @ b) = foldl (process_frame P f) (set_buffer r' d) (fs @ gs)"
    using assms s3 by (simp add: feed_unfold)
  also have "\<dots> = foldl (process_frame P f) (set_buffer r' d1) gs"
    using process_buffer [of P f r' "set_buffer r d" fs] by (simp add: d1_def)
  finally have f2: "feed P f d (a @ b) = foldl (process_frame P f) (set_buffer r' d1) gs" .
  show open_case: "feed P f (feed P f d a) b = feed P f d (a @ b)" if "phase (feed P f d a) = Open"
    using that f1 f2 b1 s2 by (simp add: feed_unfold)
  show "outcome (feed P f (feed P f d a) b) = outcome (feed P f d (a @ b))"
  proof (cases "phase d1 = Open")
    case True
    then show ?thesis using open_case f1 by simp
  next
    case False
    then have "feed P f d (a @ b) = set_buffer r' d1"
      using f2 by (simp add: process_closed)
    moreover have "feed P f (feed P f d a) b = d1" using False f1 by (simp add: feed_closed)
    ultimately show ?thesis by (simp add: outcome_def)
  qed
qed

lemma feeds_concat:
  "phase d = Open \<Longrightarrow> outcome (foldl (feed P f) (feed P f d c) cs) = outcome (feed P f d (c @ concat cs))"
proof (induction cs arbitrary: c)
  case Nil
  then show ?case by simp
next
  case (Cons c' cs)
  show ?case
  proof (cases "phase (feed P f d c) = Open")
    case True
    then have "feed P f (feed P f d c) c' = feed P f d (c @ c')"
      using feed_append(2) [OF Cons.prems] by simp
    then show ?thesis using Cons.IH [OF Cons.prems, of "c @ c'"] by simp
  next
    case False
    then have "foldl (feed P f) (feed P f d c) (c' # cs) = feed P f d c"
      by (simp add: feeds_closed feed_closed)
    moreover have "feed P f (feed P f d c) (c' @ concat cs) = feed P f d c"
      using False by (simp add: feed_closed)
    ultimately show ?thesis
      using feed_append(1) [OF Cons.prems, of P f c "c' @ concat cs"] by simp
  qed
qed

lemma decode_stream_concat:
  "chunks \<noteq> [] \<Longrightarrow> decode_stream P f chunks = outcome (feed P f decoder_init (concat chunks))"
proof (cases chunks)
  case Nil
  assume "chunks \<noteq> []"
  with Nil show ?thesis by simp
next
  case (Cons c cs)
  have "phase (decoder_init :: 'a decoder) = Open" by (simp add: decoder_init_def)
  from feeds_concat [OF this, of P f c cs] Cons show ?thesis
    by (simp add: decode_stream_def outcome_def Let_def)
qed

lemma sample_frames:
  "split_frames sample_stream = ([''data: '' @ payload_1, ''data: '' @ payload_2, ''data: [DONE]''], [])"
  by (simp add: sample_stream_def two_frames_def payload_1_def payload_2_def NL_def)

lemma frame_payload_1: "frame_payload (''data: '' @ payload_1) = Some payload_1"
  by (simp add: frame_payload_def payload_1_def NL_def strip_prefix_def List.map_filter_simps)

lemma frame_payload_2: "frame_payload (''data: '' @ payload_2) = Some payload_2"
  by (simp add: frame_payload_def payload_2_def NL_def strip_prefix_def List.map_filter_simps)

lemma frame_payload_done: "frame_payload ''data: [DONE]'' = Some ''[DONE]''"
  by (simp add: frame_payload_def NL_def strip_prefix_def List.map_filter_simps)

lemma frame_payload_1': "frame_payload (CHR ''d'' # CHR ''a'' # CHR ''t'' # CHR ''a'' # CHR '':'' # CHR '' '' # payload_1) = Some payload_1"
  using frame_payload_1 by simp

lemma frame_payload_2': "frame_payload (CHR ''d'' # CHR ''a'' # CHR ''t'' # CHR ''a'' # CHR '':'' # CHR '' '' # payload_2) = Some payload_2"
  using frame_payload_2 by simp

lemma payloads_not_done: "payload_1 \<noteq> ''[DONE]''" "payload_2 \<noteq> ''[DONE]''"
  by (simp_all add: payload_1_def payload_2_def)

lemma two_frames_split:
  "split_frames two_frames = ([''data: '' @ payload_1, ''data: '' @ payload_2], [])"
  by (simp add: two_frames_def payload_1_def payload_2_def NL_def)

lemma sample_outcome:
  assumes "P payload_1 = Inr v1" and "P payload_2 = Inr v2"
  shows "outcome (feed P f decoder_init sample_stream) = ([f v1, f v2], Done)"
  using assms
  by (simp add: feed_def decoder_init_def sample_frames process_frame_def outcome_def
        frame_payload_1' frame_payload_2' frame_payload_done payloads_not_done)

lemma two_frames_outcome:
  assumes "P payload_1 = Inr v1" and "P payload_2 = Inr v2"
  shows "outcome (feed P f decoder_init two_frames) = ([f v1, f v2], Open)"
  using assms
  by (simp add: feed_def decoder_init_def two_frames_split process_frame_def outcome_def
        frame_payload_1' frame_payload_2' payloads_not_done)

lemma sample_stream_nonempty: "sample_stream \<noteq> []" "two_frames \<noteq> []"
  by (simp_all add: sample_stream_def two_frames_def)

lemma early_close:
  assumes full: "outcome (feed P f decoder_init (q @ z)) = (ys, Done)"
  shows "\<exists>xs ph. outcome (feed P f decoder_init q) = (xs, ph) \<and> prefix xs ys \<and> (\<forall>p. ph \<noteq> Failed p)"
proof -
  define d1 where "d1 = feed P f (decoder_init :: 'a decoder) q"
  have op: "phase (decoder_init :: 'a decoder) = Open" by (simp add: decoder_init_def)
  have eq: "outcome (feed P f d1 z) = (ys, Done)"
    using feed_append(1) [OF op, of P f q z] full by (simp add: d1_def)
  have "prefix (yielded d1) (yielded (feed P f d1 z))" by (rule feed_yielded)
  then have pre: "prefix (yielded d1) ys" using eq by (simp add: outcome_def)
  have "phase d1 \<noteq> Failed p" for p
  proof
    assume "phase d1 = Failed p"
    then have "feed P f d1 z = d1" and "phase d1 \<noteq> Done" by (simp_all add: feed_closed)
    with eq show False by (simp add: outcome_def)
  qed
  with pre show ?thesis by (simp add: outcome_def d1_def)
qed

text \<open>
  C7. The bytes of the stream are the frames \<open>data: {"id":1}\<close>, \<open>data: {"id":2}\<close> and
  \<open>data: [DONE]\<close>, each followed by an empty line, and \<open>JSON.parse\<close> parses the two
  payloads. However the bytes are cut into chunks, the decoder yields the two mapped
  values in the order of the frames and ends the sequence at the sentinel. When the
  stream closes after the two frames, or anywhere before the sentinel is complete, the
  sequence ends without a decode error, with the values of the frames received so far.
\<close>

theorem decoder_sample_any_chunking:
  assumes p1: "JSON_parse payload_1 = Inr v1" and p2: "JSON_parse payload_2 = Inr v2"
  shows "(concat chunks = sample_stream \<longrightarrow>
            decode_stream JSON_parse f chunks = ([f v1, f v2], Done)) \<and>
         (concat chunks = two_frames \<longrightarrow>
            decode_stream JSON_parse f chunks = ([f v1, f v2], Open)) \<and>
         (prefix (concat chunks) sample_stream \<longrightarrow>
            (\<exists>ys ph. decode_stream JSON_parse f chunks = (ys, ph) \<and> prefix ys [f v1, f v2] \<and>
                     (\<forall>p. ph \<noteq> Failed p)))"
proof (intro conjI impI)
  assume c: "concat chunks = sample_stream"
  then have "chunks \<noteq> []" using sample_stream_nonempty by auto
  then show "decode_stream JSON_parse f chunks = ([f v1, f v2], Done)"
    using c sample_outcome [OF p1 p2] by (simp add: decode_stream_concat)
next
  assume c: "concat chunks = two_frames"
  then have "chunks \<noteq> []" using sample_stream_nonempty by auto
  then show "decode_stream JSON_parse f chunks = ([f v1, f v2], Open)"
    using c two_frames_outcome [OF p1 p2] by (simp add: decode_stream_concat)
next
  assume "prefix (concat chunks) sample_stream"
  then obtain z where z: "sample_stream = concat chunks @ z" by (auto simp: prefix_def)
  show "\<exists>ys ph. decode_stream JSON_parse f chunks = (ys, ph) \<and> prefix ys [f v1, f v2] \<and>
                (\<forall>p. ph \<noteq> Failed p)"
  proof (cases "chunks = []")
    case True
    then show ?thesis by (simp add: decode_stream_def decoder_init_def)
  next
    case False
    have "outcome (feed JSON_parse f decoder_init (concat chunks @ z)) = ([f v1, f v2], Done)"
      using sample_outcome [OF p1 p2] z by simp
    from early_close [OF this] False show ?thesis by (simp add: decode_stream_concat)
  qed
qed

theorem decoder_sample_any_chunking_witness:
  "sample_JSON_parse payload_1 = Inr (JObj [(''id'', JNum 1)]) \<and>
   sample_JSON_parse payload_2 = Inr (JObj [(''id'', JNum 2)]) \<and>
   concat [take 9 sample_stream, take 20 (drop 9 sample_stream), drop 29 sample_stream] = sample_stream \<and>
   decode_stream sample_JSON_parse (\<lambda>response. response)
     [take 9 sample_stream, take 20 (drop 9 sample_stream), drop 29 sample_stream]
     = ([JObj [(''id'', JNum 1)], JObj [(''id'', JNum 2)]], Done) \<and>
   concat [take 17 two_frames, drop 17 two_frames] = two_frames \<and>
   decode_stream sample_JSON_parse (\<lambda>response. response) [take 17 two_frames, drop 17 two_frames]
     = ([JObj [(''id'', JNum 1)], JObj [(''id'', JNum 2)]], Open) \<and>
   prefix (concat [take 4 sample_stream, take 21 (drop 4 sample_stream)]) sample_stream \<and>
   (\<exists>ys ph. decode_stream sample_JSON_parse (\<lambda>response. response)
               [take 4 sample_stream, take 21 (drop 4 sample_stream)] = (ys, ph) \<and>
            prefix ys [JObj [(''id'', JNum 1)], JObj [(''id'', JNum 2)]] \<and> (\<forall>p. ph \<noteq> Failed p))"
proof -
  have a: "sample_JSON_parse payload_1 = Inr (JObj [(''id'', JNum 1)])"
    by (simp add: sample_JSON_parse_def)
  have b: "sample_JSON_parse payload_2 = Inr (JObj [(''id'', JNum 2)])"
    by (simp add: sample_JSON_parse_def payload_1_def payload_2_def)
  have c: "concat [take 9 sample_stream, take 20 (drop 9 sample_stream), drop 29 sample_stream] = sample_stream"
    by (simp add: sample_stream_def two_frames_def payload_1_def payload_2_def)
  have d: "concat [take 17 two_frames, drop 17 two_frames] = two_frames"
    by simp
  have "concat [take 4 sample_stream, take 21 (drop 4 sample_stream)] = take 25 sample_stream"
    by (simp add: sample_stream_def two_frames_def payload_1_def payload_2_def)
  then have e: "prefix (concat [take 4 sample_stream, take 21 (drop 4 sample_stream)]) sample_stream"
    by (simp only: take_is_prefix)
  note t = decoder_sample_any_chunking [OF a b]
  from t [of "[take 9 sample_stream, take 20 (drop 9 sample_stream), drop 29 sample_stream]" "\<lambda>response. response"]
       t [of "[take 17 two_frames, drop 17 two_frames]" "\<lambda>response. response"]
       t [of "[take 4 sample_stream, take 21 (drop 4 sample_stream)]" "\<lambda>response. response"]
       a b c d e
  show ?thesis by blast
qed

end
